theory Spec2Isabelle
  imports Complex_Main "HOL-Library.Monad_Syntax"
begin

section \<open>Oil-spill drift and weathering engine (simulation.js)\<close>

text \<open>
  The engine computes with JavaScript numbers. The embedding uses exact real arithmetic:
  a finite number is a \<open>real\<close>, rounding is not modelled. Where the source can produce a
  value that is not a finite number (\<open>NaN\<close> from reading a typed array out of range, from
  \<open>0/0\<close> or from the square root of a negative number; an infinity from dividing by zero),
  the quantity has type \<open>num = real option\<close> and \<open>None\<close> stands for "not a finite number".
  Every operation the source applies to such a quantity either propagates it or is a
  comparison against finite bounds, which is false; both are written out below.
\<close>

type_synonym num = "real option"

subsection \<open>Oil property table\<close>

datatype oil_type = crude | fuel | diesel | gasoline

record oil_props =
  density :: real
  viscosity :: real
  api :: real
  evapRate :: real
  pourPoint :: real
  volatileFrac :: real
  dispersibility :: real

fun OIL_PROPERTIES :: "oil_type \<Rightarrow> oil_props" where
  "OIL_PROPERTIES crude = \<lparr>density = 860, viscosity = 12, api = 33, evapRate = 0.042,
     pourPoint = -15, volatileFrac = 0.25, dispersibility = 0.5\<rparr>"
| "OIL_PROPERTIES fuel = \<lparr>density = 950, viscosity = 180, api = 17, evapRate = 0.015,
     pourPoint = 10, volatileFrac = 0.08, dispersibility = 0.2\<rparr>"
| "OIL_PROPERTIES diesel = \<lparr>density = 840, viscosity = 4, api = 37, evapRate = 0.065,
     pourPoint = -30, volatileFrac = 0.45, dispersibility = 0.7\<rparr>"
| "OIL_PROPERTIES gasoline = \<lparr>density = 740, viscosity = 0.6, api = 60, evapRate = 0.12,
     pourPoint = -60, volatileFrac = 0.80, dispersibility = 0.9\<rparr>"

subsection \<open>Constants\<close>

definition DEG_TO_RAD :: real where
  "DEG_TO_RAD = pi / 180"

definition RAD_TO_DEG :: real where
  "RAD_TO_DEG = 180 / pi"

definition EARTH_RADIUS :: real where
  "EARTH_RADIUS = 6371000"

definition WIND_DRIFT_FACTOR :: real where
  "WIND_DRIFT_FACTOR = 0.03"

definition WIND_DEFLECTION :: real where
  "WIND_DEFLECTION = 15 * DEG_TO_RAD"

subsection \<open>Weathering submodel\<close>

text \<open>\<open>_calcEvaporation(props, hours, temp, windSpeed)\<close>: \<open>Math.sqrt\<close> is applied to
  \<open>hours > 0\<close> only.\<close>

definition calcEvaporation :: "oil_props \<Rightarrow> real \<Rightarrow> real \<Rightarrow> real \<Rightarrow> real" where
  "calcEvaporation props hours temp windSpeed =
     (if hours \<le> 0 then 0
      else let K = evapRate props * (1 + 0.045 * (temp - 15));
               evapFrac = K * sqrt hours * (1 + 0.01 * windSpeed)
           in min evapFrac (volatileFrac props))"

text \<open>\<open>_calcDispersion(props, windSpeed, hours)\<close>.\<close>

definition calcDispersion :: "oil_props \<Rightarrow> real \<Rightarrow> real \<Rightarrow> real" where
  "calcDispersion props windSpeed hours =
     (if hours \<le> 0 \<or> windSpeed < 5 then 0
      else let Dba = 0.0034 * dispersibility props;
               waveEnergy = windSpeed ^ 2 * 0.001;
               dispRate = Dba * waveEnergy
           in min (dispRate * hours) 0.3)"

text \<open>\<open>_calcEmulsion(hours, windSpeed)\<close>; \<open>2e-6\<close> is \<open>2 / 1000000\<close>.\<close>

definition calcEmulsion :: "real \<Rightarrow> real \<Rightarrow> real" where
  "calcEmulsion hours windSpeed =
     (if hours \<le> 0 \<or> windSpeed < 3 then 0
      else let Ymax = 0.7;
               Ka = (2 / 1000000) * (windSpeed + 1) ^ 2;
               Y = Ymax * (1 - exp (- Ka * hours * 3600))
           in min Y Ymax)"

subsection \<open>FieldGrid\<close>

text \<open>
  A \<open>FieldGrid\<close> object after construction: the two axes, the optional time axis
  (\<open>json.time_hours || null\<close>) and the stored variables, each the \<open>Float32Array\<close> built from
  the loaded array (the stored values; the rounding to 32 bits is not modelled). The
  other fields the constructor sets are functions of these.
\<close>

record field_grid =
  g_lat :: "real list"
  g_lon :: "real list"
  timeHours :: "real list option"
  vars :: "string \<Rightarrow> real list option"

definition nLat :: "field_grid \<Rightarrow> nat" where
  "nLat g = length (g_lat g)"

definition nLon :: "field_grid \<Rightarrow> nat" where
  "nLon g = length (g_lon g)"

text \<open>\<open>lat[0]\<close> and \<open>lat[nLat - 1]\<close> are \<open>undefined\<close> for an empty axis; every use below is
  guarded by the axis being non-empty.\<close>

definition latMin :: "field_grid \<Rightarrow> real" where
  "latMin g = g_lat g ! 0"

definition latMax :: "field_grid \<Rightarrow> real" where
  "latMax g = g_lat g ! (nLat g - 1)"

definition lonMin :: "field_grid \<Rightarrow> real" where
  "lonMin g = g_lon g ! 0"

definition lonMax :: "field_grid \<Rightarrow> real" where
  "lonMax g = g_lon g ! (nLon g - 1)"

definition dLat :: "field_grid \<Rightarrow> real" where
  "dLat g = (if nLat g > 1 then (latMax g - latMin g) / (real (nLat g) - 1) else 1)"

definition dLon :: "field_grid \<Rightarrow> real" where
  "dLon g = (if nLon g > 1 then (lonMax g - lonMin g) / (real (nLon g) - 1) else 1)"

definition times :: "field_grid \<Rightarrow> real list" where
  "times g = (case timeHours g of None \<Rightarrow> [] | Some ts \<Rightarrow> ts)"

definition nTime :: "field_grid \<Rightarrow> nat" where
  "nTime g = length (times g)"

definition isTimeVarying :: "field_grid \<Rightarrow> bool" where
  "isTimeVarying g = (nTime g > 0)"

definition sliceSize :: "field_grid \<Rightarrow> nat" where
  "sliceSize g = nLat g * nLon g"

text \<open>\<open>contains(lat, lng)\<close> on finite coordinates. A comparison with \<open>undefined\<close> (the
  bound of an empty axis) is false.\<close>

definition contains :: "field_grid \<Rightarrow> real \<Rightarrow> real \<Rightarrow> bool" where
  "contains g la lo =
     (g_lat g \<noteq> [] \<and> g_lon g \<noteq> [] \<and>
      la \<ge> latMin g \<and> la \<le> latMax g \<and> lo \<ge> lonMin g \<and> lo \<le> lonMax g)"

text \<open>Reading a typed array: an index outside the array (negative included) reads
  \<open>undefined\<close>, which is \<open>NaN\<close> in the arithmetic that follows, whatever its weight.\<close>

definition readArr :: "real list \<Rightarrow> int \<Rightarrow> num" where
  "readArr d i = (if 0 \<le> i \<and> i < int (length d) then Some (d ! nat i) else None)"

text \<open>The bilinear combination of the four corners, which \<open>sample\<close> writes out three times
  (static field, slice \<open>t0\<close>, slice \<open>t1\<close>); \<open>off\<close> is the slice offset and \<open>n\<close> is \<open>nLon\<close>.\<close>

definition bilinear :: "real list \<Rightarrow> int \<Rightarrow> int \<Rightarrow> int \<Rightarrow> int \<Rightarrow> real \<Rightarrow> real \<Rightarrow> num" where
  "bilinear d off n i0 j0 di dj =
     do {
       v00 \<leftarrow> readArr d (off + i0 * n + j0);
       v01 \<leftarrow> readArr d (off + i0 * n + (j0 + 1));
       v10 \<leftarrow> readArr d (off + (i0 + 1) * n + j0);
       v11 \<leftarrow> readArr d (off + (i0 + 1) * n + (j0 + 1));
       Some ((1 - di) * (1 - dj) * v00 + (1 - di) * dj * v01 +
             di * (1 - dj) * v10 + di * dj * v11)
     }"

text \<open>The clamped fractional index \<open>Math.max(0, Math.min((x - lo) / d, n - 1))\<close> on a
  non-empty axis. With \<open>d = 0\<close> the quotient is \<open>+Infinity\<close>, \<open>-Infinity\<close> or \<open>NaN\<close>; the
  clamp brings the infinities back and keeps \<open>NaN\<close>.\<close>

definition fracIndex :: "real \<Rightarrow> real \<Rightarrow> real \<Rightarrow> nat \<Rightarrow> num" where
  "fracIndex x lo d n =
     (if d = 0
      then (if x > lo then Some (max 0 (real n - 1))
            else if x < lo then Some 0
            else None)
      else Some (max 0 (min ((x - lo) / d) (real n - 1))))"

text \<open>The linear search of the time axis over \<open>k = 0 .. nTime - 2\<close>, stopping at the first
  interval that holds \<open>th\<close>; \<open>ft\<close> stays \<open>0\<close> when none does. An interval of length zero
  that holds \<open>th\<close> gives \<open>0/0\<close>.\<close>

fun searchTime :: "real list \<Rightarrow> real \<Rightarrow> nat list \<Rightarrow> num" where
  "searchTime ts th [] = Some 0"
| "searchTime ts th (k # ks) =
     (if th \<ge> ts ! k \<and> th \<le> ts ! (k + 1)
      then (if ts ! (k + 1) - ts ! k = 0 then None
            else Some (real k + (th - ts ! k) / (ts ! (k + 1) - ts ! k)))
      else searchTime ts th ks)"

definition locateTime :: "real list \<Rightarrow> real \<Rightarrow> num" where
  "locateTime ts th =
     (if th \<le> ts ! 0 then Some 0
      else if th \<ge> ts ! (length ts - 1) then Some (real (length ts) - 1)
      else searchTime ts th [0..<length ts - 1])"

text \<open>\<open>sample(varName, lat, lng, timeHours)\<close> on finite coordinates; the time argument is
  optional (\<open>timeHours || 0\<close>).\<close>

definition sample :: "field_grid \<Rightarrow> string \<Rightarrow> real \<Rightarrow> real \<Rightarrow> real option \<Rightarrow> num" where
  "sample g varName la lo timeArg =
     (case vars g varName of
        None \<Rightarrow> Some 0
      | Some d \<Rightarrow>
          if g_lat g = [] \<or> g_lon g = [] then None
          else do {
            fi \<leftarrow> fracIndex la (latMin g) (dLat g) (nLat g);
            fj \<leftarrow> fracIndex lo (lonMin g) (dLon g) (nLon g);
            let i0 = min \<lfloor>fi\<rfloor> (int (nLat g) - 2);
                j0 = min \<lfloor>fj\<rfloor> (int (nLon g) - 2);
                di = fi - of_int i0;
                dj = fj - of_int j0
            in
              if \<not> isTimeVarying g then bilinear d 0 (int (nLon g)) i0 j0 di dj
              else do {
                ft \<leftarrow> locateTime (times g) (case timeArg of None \<Rightarrow> 0 | Some t \<Rightarrow> t);
                let t0 = min \<lfloor>ft\<rfloor> (int (nTime g) - 2);
                    dt_frac = ft - of_int t0;
                    ss = int (sliceSize g)
                in do {
                  valT0 \<leftarrow> bilinear d (t0 * ss) (int (nLon g)) i0 j0 di dj;
                  valT1 \<leftarrow> bilinear d ((t0 + 1) * ss) (int (nLon g)) i0 j0 di dj;
                  Some (valT0 * (1 - dt_frac) + valT1 * dt_frac)
                }
              }
          })"

text \<open>An axis with at least two nodes, strictly ascending and uniformly spaced.\<close>

definition uniformAxis :: "real list \<Rightarrow> bool" where
  "uniformAxis xs =
     (2 \<le> length xs \<and> xs ! 0 < xs ! (length xs - 1) \<and>
      (\<forall>i < length xs. xs ! i = xs ! 0 + real i * ((xs ! (length xs - 1) - xs ! 0) / (real (length xs) - 1))))"

text \<open>Two small grids: a time-varying one with a single time slice, and a static one
  with a single row.\<close>

definition single_slice_grid :: field_grid where
  "single_slice_grid = \<lparr>g_lat = [0, 1], g_lon = [0, 1], timeHours = Some [0],
     vars = (\<lambda>v. if v = ''u10'' then Some [1, 2, 3, 4] else None)\<rparr>"

definition single_row_grid :: field_grid where
  "single_row_grid = \<lparr>g_lat = [0], g_lon = [0, 1], timeHours = None,
     vars = (\<lambda>v. if v = ''u10'' then Some [1, 2] else None)\<rparr>"

subsection \<open>Arithmetic on numbers that may not be finite\<close>

definition nadd :: "num \<Rightarrow> num \<Rightarrow> num" where
  "nadd a b = do { x \<leftarrow> a; y \<leftarrow> b; Some (x + y) }"

definition nsub :: "num \<Rightarrow> num \<Rightarrow> num" where
  "nsub a b = do { x \<leftarrow> a; y \<leftarrow> b; Some (x - y) }"

definition nmul :: "num \<Rightarrow> num \<Rightarrow> num" where
  "nmul a b = do { x \<leftarrow> a; y \<leftarrow> b; Some (x * y) }"

text \<open>\<open>Math.max\<close> is \<open>NaN\<close> as soon as one argument is.\<close>

definition nmax :: "num \<Rightarrow> num \<Rightarrow> num" where
  "nmax a b = do { x \<leftarrow> a; y \<leftarrow> b; Some (max x y) }"

text \<open>\<open>Math.sqrt\<close>: \<open>NaN\<close> below zero.\<close>

definition nsqrt :: "num \<Rightarrow> num" where
  "nsqrt a = do { x \<leftarrow> a; if x < 0 then None else Some (sqrt x) }"

text \<open>\<open>xs.reduce((s, x) => s + x, 0)\<close>.\<close>

definition nsum :: "num list \<Rightarrow> num" where
  "nsum xs = foldl nadd (Some 0) xs"

text \<open>\<open>Math.atan2(y, x)\<close> on finite arguments (signed zeros are not modelled).\<close>

definition atan2 :: "real \<Rightarrow> real \<Rightarrow> real" where
  "atan2 y x =
     (if x > 0 then arctan (y / x)
      else if x < 0 then (if y \<ge> 0 then arctan (y / x) + pi else arctan (y / x) - pi)
      else if y > 0 then pi / 2
      else if y < 0 then - pi / 2
      else 0)"

text \<open>The remainder \<open>x % y\<close> of finite numbers, \<open>y \<noteq> 0\<close>: the quotient is truncated towards
  zero, so the result has the sign of \<open>x\<close>.\<close>

definition jsmod :: "real \<Rightarrow> real \<Rightarrow> real" where
  "jsmod x y = x - y * of_int (if x / y \<ge> 0 then \<lfloor>x / y\<rfloor> else \<lceil>x / y\<rceil>)"

subsection \<open>Particles\<close>

record particle =
  lat :: num
  lng :: num
  mass :: num
  active :: bool
  beached :: bool
  age :: real
  thickness :: real
  evaporated :: real
  dispersed :: real
  emulsionWater :: real
  p_viscosity :: real

text \<open>\<open>new OilParticle(lat, lng, mass)\<close>; the field \<open>viscosity\<close> is \<open>p_viscosity\<close> here.\<close>

definition OilParticle :: "num \<Rightarrow> num \<Rightarrow> num \<Rightarrow> particle" where
  "OilParticle la lo m =
     \<lparr>lat = la, lng = lo, mass = m, active = True, beached = False, age = 0,
      thickness = 0.01, evaporated = 0, dispersed = 0, emulsionWater = 0, p_viscosity = 0\<rparr>"

subsection \<open>Configuration and state of OilSpillSimulation\<close>

text \<open>Any \<open>spillMode\<close> other than \<open>'continuous'\<close> behaves as \<open>'instant'\<close>.\<close>

datatype spill_mode = instant | continuous

text \<open>The fields the engine reads and never writes.\<close>

record config =
  timeStep :: real
  maxTime :: real
  playbackSpeed :: nat
  spillLat :: real
  spillLng :: real
  oilVolume :: real
  oilType :: oil_type
  particleCount :: nat
  spillMode :: spill_mode
  spillDuration :: real
  windSpeed :: real
  windDir :: real
  currentSpeed :: real
  currentDir :: real
  waterTemp :: real
  windGrid :: "field_grid option"
  currentGrid :: "field_grid option"
  tempGrid :: "field_grid option"
  landMask :: "field_grid option"
  useGridData :: bool
  gridTimeOffset :: real

text \<open>The statistics object; \<open>emulsionWater\<close> and \<open>viscosity\<close> are absent until the first
  full update.\<close>

record stats =
  area :: num
  remaining :: real
  s_evaporated :: real
  s_dispersed :: real
  centerLat :: num
  centerLng :: num
  maxDrift :: num
  s_emulsionWater :: "real option"
  s_viscosity :: "real option"
  s_beached :: nat

record traj_point =
  t_time :: real
  t_lat :: num
  t_lng :: num

text \<open>The fields the engine writes, and the stream of \<open>Math.random()\<close> results with the
  position of the next draw.\<close>

record sim =
  particles :: "particle list"
  time :: real
  isRunning :: bool
  isPaused :: bool
  particlesReleased :: nat
  stats :: stats
  trajectory :: "traj_point list"
  rnd :: "nat \<Rightarrow> real"
  rpos :: nat

definition oilProps :: "config \<Rightarrow> oil_props" where
  "oilProps c = OIL_PROPERTIES (oilType c)"

definition hasGridData :: "config \<Rightarrow> bool" where
  "hasGridData c = (windGrid c \<noteq> None \<or> currentGrid c \<noteq> None \<or> tempGrid c \<noteq> None)"

text \<open>\<open>(oilVolume * 1000) / particleCount\<close>; not finite when \<open>particleCount = 0\<close>.\<close>

definition massPerParticle :: "config \<Rightarrow> num" where
  "massPerParticle c =
     (if particleCount c = 0 then None
      else Some (oilVolume c * 1000 / real (particleCount c)))"

definition initStats :: "config \<Rightarrow> stats" where
  "initStats c =
     \<lparr>area = Some 0, remaining = 100, s_evaporated = 0, s_dispersed = 0,
      centerLat = Some (spillLat c), centerLng = Some (spillLng c), maxDrift = Some 0,
      s_emulsionWater = None, s_viscosity = None, s_beached = 0\<rparr>"

text \<open>A point of the disk of radius \<open>initRadius\<close> (degrees) around the spill, from two
  draws; written out in \<open>initialize\<close> and again in \<open>_step\<close>. The longitude divides by
  \<open>cos(spillLat * DEG_TO_RAD)\<close>.\<close>

definition diskPoint :: "config \<Rightarrow> real \<Rightarrow> real \<Rightarrow> real \<Rightarrow> num \<times> num" where
  "diskPoint c initRadius r1 r2 =
     (let angle = r1 * 2 * pi;
          r = sqrt r2 * initRadius
      in (Some (spillLat c + r * cos angle),
          if cos (spillLat c * DEG_TO_RAD) = 0 then None
          else Some (spillLng c + r * sin angle / cos (spillLat c * DEG_TO_RAD))))"

text \<open>\<open>initialize()\<close>. The instant mode draws twice per particle.\<close>

definition initialParticle :: "config \<Rightarrow> (nat \<Rightarrow> real) \<Rightarrow> nat \<Rightarrow> nat \<Rightarrow> particle" where
  "initialParticle c r k i =
     (let (la, lo) = diskPoint c 0.002 (r (k + 2 * i)) (r (k + 2 * i + 1))
      in (OilParticle la lo (massPerParticle c))\<lparr>p_viscosity := viscosity (oilProps c)\<rparr>)"

definition initialize :: "config \<Rightarrow> sim \<Rightarrow> sim" where
  "initialize c s =
     (if spillMode c = continuous
      then s\<lparr>particles := replicate (particleCount c)
                 ((OilParticle (Some (spillLat c)) (Some (spillLng c)) (massPerParticle c))
                    \<lparr>p_viscosity := viscosity (oilProps c), active := False\<rparr>),
             time := 0, trajectory := [], particlesReleased := 0, stats := initStats c\<rparr>
      else s\<lparr>particles := map (initialParticle c (rnd s) (rpos s)) [0..<particleCount c],
             time := 0, trajectory := [], particlesReleased := particleCount c,
             stats := initStats c, rpos := rpos s + 2 * particleCount c\<rparr>)"

text \<open>\<open>reset()\<close>.\<close>

definition reset :: "config \<Rightarrow> sim \<Rightarrow> sim" where
  "reset c s =
     s\<lparr>isRunning := False, isPaused := False, particles := [], time := 0, trajectory := [],
       particlesReleased := 0, stats := initStats c\<rparr>"

subsection \<open>The integrator step\<close>

text \<open>\<open>_gaussRandom()\<close>: the rejection loop draws pairs until one falls inside the unit
  disk, the origin excluded. It need not end; \<open>None\<close> is no return.\<close>

partial_function (option) gaussRandom :: "(nat \<Rightarrow> real) \<Rightarrow> nat \<Rightarrow> (real \<times> nat) option" where
  "gaussRandom r k =
     (let u = r k * 2 - 1;
          v = r (k + 1) * 2 - 1;
          s = u * u + v * v
      in if s \<ge> 1 \<or> s = 0 then gaussRandom r (k + 2)
         else Some (u * sqrt (- 2 * ln s / s), k + 2))"

text \<open>The release schedule of the continuous mode. \<open>targetReleased\<close> is
  \<open>Math.min(Math.floor((time + dt) / spillDurSec * particleCount), particleCount)\<close>, computed
  when \<open>_particlesReleased < particleCount\<close>; with \<open>spillDurSec = 0\<close> the quotient is
  \<open>+Infinity\<close> (the minimum is then \<open>particleCount\<close>), or it is \<open>-Infinity\<close> or \<open>NaN\<close>
  (\<open>None\<close>: the loop condition \<open>i < toRelease\<close> is false at once).\<close>

definition targetReleased :: "config \<Rightarrow> sim \<Rightarrow> int option" where
  "targetReleased c s =
     (let dt = timeStep c;
          spillDurSec = spillDuration c * 3600
      in if spillDurSec = 0
         then (if time s + dt > 0 then Some (int (particleCount c)) else None)
         else Some (min \<lfloor>(time s + dt) / spillDurSec * real (particleCount c)\<rfloor>
                        (int (particleCount c))))"

text \<open>One pass of the release loop body: the particle at index \<open>_particlesReleased\<close> is
  placed and activated.\<close>

definition releaseOne :: "config \<Rightarrow> sim \<Rightarrow> sim" where
  "releaseOne c s =
     (let k = particlesReleased s;
          p = particles s ! k;
          (la, lo) = diskPoint c 0.001 (rnd s (rpos s)) (rnd s (rpos s + 1))
      in s\<lparr>particles := (particles s)[k := p\<lparr>lat := la, lng := lo, active := True, age := 0\<rparr>],
           particlesReleased := k + 1,
           rpos := rpos s + 2\<rparr>)"

text \<open>\<open>for (i = 0; i < toRelease && _particlesReleased < particleCount; i++)\<close>, with the
  number of passes left as the argument. Beyond the end of the array \<open>particles[k]\<close> is
  \<open>undefined\<close> and the assignment to its field throws (\<open>None\<close>).\<close>

fun releaseLoop :: "config \<Rightarrow> nat \<Rightarrow> sim \<Rightarrow> sim option" where
  "releaseLoop c 0 s = Some s"
| "releaseLoop c (Suc n) s =
     (if particlesReleased s < particleCount c
      then (if particlesReleased s < length (particles s)
            then releaseLoop c n (releaseOne c s)
            else None)
      else Some s)"

definition releasePhase :: "config \<Rightarrow> sim \<Rightarrow> sim option" where
  "releasePhase c s =
     (if spillMode c = continuous \<and> particlesReleased s < particleCount c
      then (if time s < spillDuration c * 3600
            then (case targetReleased c s of
                    None \<Rightarrow> Some s
                  | Some t \<Rightarrow> releaseLoop c (nat (t - int (particlesReleased s))) s)
            else Some s)
      else Some s)"

text \<open>What \<open>_step\<close> computes once, before the particle loop.\<close>

record step_globals =
  useGrid :: bool
  gridT :: real
  globalTotalU :: real
  globalTotalV :: real
  globalDiffCoeff :: real
  globalWs :: real
  repWs :: real
  evapFraction :: real
  dispersFraction :: real
  emulsionWaterG :: real

definition stepGlobals :: "config \<Rightarrow> real \<Rightarrow> step_globals" where
  "stepGlobals c t =
     (let props = oilProps c;
          useGrid = (useGridData c \<and> hasGridData c);
          gridT = t / 3600 + gridTimeOffset c;
          hoursElapsed = t / 3600;
          timeVariation = sin (t * 0.0002) * 0.1;
          ws = windSpeed c * (1 + timeVariation);
          wd = windDir c + 5 * sin (t * 0.0003);
          cs = currentSpeed c * (1 + 0.05 * sin (t * 0.0005));
          cd = currentDir c + 3 * cos (t * 0.0004);
          windGoRad = jsmod (wd + 180) 360 * DEG_TO_RAD;
          currentGoRad = cd * DEG_TO_RAD;
          windDriftU = ws * WIND_DRIFT_FACTOR * sin (windGoRad + WIND_DEFLECTION);
          windDriftV = ws * WIND_DRIFT_FACTOR * cos (windGoRad + WIND_DEFLECTION);
          currentU = cs * sin currentGoRad;
          currentV = cs * cos currentGoRad;
          globalWs = (if useGrid then windSpeed c else ws);
          repWs = (if useGrid then 5.0 else globalWs)
      in \<lparr>useGrid = useGrid,
          gridT = gridT,
          globalTotalU = (if useGrid then 0 else windDriftU + currentU),
          globalTotalV = (if useGrid then 0 else windDriftV + currentV),
          globalDiffCoeff = (if useGrid then 1.0 else 1.0 + 0.5 * ws),
          globalWs = globalWs,
          repWs = repWs,
          evapFraction = calcEvaporation props hoursElapsed (waterTemp c) repWs,
          dispersFraction = calcDispersion props repWs hoursElapsed,
          emulsionWaterG = calcEmulsion hoursElapsed repWs\<rparr>)"

text \<open>A grid variable at the particle's position: \<open>0\<close> unless the grid is loaded and
  contains the position (a position that is not finite is in no grid).\<close>

definition sampleAt :: "field_grid option \<Rightarrow> string \<Rightarrow> particle \<Rightarrow> real \<Rightarrow> num" where
  "sampleAt go v p t =
     (case go of
        None \<Rightarrow> Some 0
      | Some g \<Rightarrow>
          (case (lat p, lng p) of
             (Some la, Some lo) \<Rightarrow> if contains g la lo then sample g v la lo (Some t) else Some 0
           | _ \<Rightarrow> Some 0))"

text \<open>The drift vector and diffusion coefficient of one particle in grid mode:
  \<open>(totalU, totalV, diffCoeff)\<close>.\<close>

definition gridDrift :: "config \<Rightarrow> real \<Rightarrow> particle \<Rightarrow> num \<times> num \<times> num" where
  "gridDrift c t p =
     (let u10 = sampleAt (windGrid c) ''u10'' p t;
          v10 = sampleAt (windGrid c) ''v10'' p t;
          uo = sampleAt (currentGrid c) ''uo'' p t;
          vo = sampleAt (currentGrid c) ''vo'' p t;
          windSpeed = nsqrt (nadd (nmul u10 u10) (nmul v10 v10));
          windAngle = do { u \<leftarrow> u10; v \<leftarrow> v10; Some (atan2 u v) };
          driftU = nmul (nmul windSpeed (Some WIND_DRIFT_FACTOR))
                        (map_option (\<lambda>a. sin (a + WIND_DEFLECTION)) windAngle);
          driftV = nmul (nmul windSpeed (Some WIND_DRIFT_FACTOR))
                        (map_option (\<lambda>a. cos (a + WIND_DEFLECTION)) windAngle)
      in (nadd driftU uo, nadd driftV vo, nadd (Some 1.0) (nmul (Some 0.5) windSpeed)))"

text \<open>The land mask test at a position: the mask is loaded, contains the position and its
  \<open>lsm\<close> there exceeds 0.5 (false for \<open>NaN\<close>).\<close>

definition onLand :: "config \<Rightarrow> num \<Rightarrow> num \<Rightarrow> bool" where
  "onLand c la lo =
     (case landMask c of
        None \<Rightarrow> False
      | Some g \<Rightarrow>
          (case (la, lo) of
             (Some a, Some b) \<Rightarrow>
               contains g a b \<and>
               (case sample g ''lsm'' a b None of Some lsm \<Rightarrow> lsm > 0.5 | None \<Rightarrow> False)
           | _ \<Rightarrow> False))"

text \<open>The displacement of one particle by \<open>(dLat, dLng)\<close> of \<open>_step\<close>, here \<open>dLatP\<close> and
  \<open>dLngP\<close>, and the grounding test.\<close>

definition displace :: "config \<Rightarrow> particle \<Rightarrow> num \<Rightarrow> num \<Rightarrow> particle" where
  "displace c p dLatP dLngP =
     (let p1 = p\<lparr>lat := nadd (lat p) dLatP, lng := nadd (lng p) dLngP\<rparr>
      in if onLand c (lat p1) (lng p1)
         then p1\<lparr>lat := nsub (lat p1) dLatP, lng := nsub (lng p1) dLngP,
                active := False, beached := True\<rparr>
         else p1)"

text \<open>The weathering part of the loop body: age, the global fractions, viscosity.\<close>

definition weatherParticle :: "config \<Rightarrow> step_globals \<Rightarrow> particle \<Rightarrow> particle" where
  "weatherParticle c e p =
     (let props = oilProps c;
          p1 = p\<lparr>age := age p + timeStep c\<rparr>;
          p2 = p1\<lparr>evaporated := min (evapFraction e) (volatileFrac props),
                 dispersed := min (dispersFraction e) 0.3,
                 emulsionWater := emulsionWaterG e\<rparr>;
          viscMult = exp (5 * evaporated p2) * (1 / (1 - emulsionWater p2) powr 2.5)
      in p2\<lparr>p_viscosity := viscosity props * viscMult\<rparr>)"

text \<open>Mass and Fay thickness of a particle that stays in the water.\<close>

definition spreadParticle :: "config \<Rightarrow> particle \<Rightarrow> particle" where
  "spreadParticle c p =
     (let remainFrac = 1 - evaporated p - dispersed p;
          p1 = p\<lparr>mass := nmul (massPerParticle c) (Some remainFrac)\<rparr>;
          tHours = age p1 / 3600
      in if tHours > 0 then p1\<lparr>thickness := 0.01 * tHours powr (- 0.33)\<rparr> else p1)"

text \<open>The displacement \<open>(dLat, dLng)\<close> in degrees of one particle, from its drift vector
  and the two Gaussian draws \<open>g1\<close>, \<open>g2\<close>.\<close>

definition displacement ::
    "config \<Rightarrow> step_globals \<Rightarrow> particle \<Rightarrow> real \<Rightarrow> real \<Rightarrow> num \<times> num" where
  "displacement c e p g1 g2 =
     (let dt = timeStep c;
          (totalU, totalV, diffCoeff) =
             (if useGrid e then gridDrift c (gridT e) p
              else (Some (globalTotalU e), Some (globalTotalV e), Some (globalDiffCoeff e)));
          spread = nsqrt (nmul (nmul (Some 2) diffCoeff) (Some dt));
          randomU = nmul (Some g1) spread;
          randomV = nmul (Some g2) spread;
          du = nadd (nmul totalU (Some dt)) randomU;
          dv = nadd (nmul totalV (Some dt)) randomV
      in (map_option (\<lambda>y. (y / EARTH_RADIUS) * RAD_TO_DEG) dv,
          do {
            x \<leftarrow> du;
            la \<leftarrow> lat p;
            if EARTH_RADIUS * cos (la * DEG_TO_RAD) = 0 then None
            else Some ((x / (EARTH_RADIUS * cos (la * DEG_TO_RAD))) * RAD_TO_DEG)
          }))"

text \<open>The drift part of the loop body: two calls of \<open>_gaussRandom\<close>, the displacement, the
  grounding test.\<close>

definition driftParticle ::
    "config \<Rightarrow> step_globals \<Rightarrow> (nat \<Rightarrow> real) \<Rightarrow> particle \<Rightarrow> nat \<Rightarrow> (particle \<times> nat) option" where
  "driftParticle c e r p k =
     do {
       (g1, k1) \<leftarrow> gaussRandom r k;
       (g2, k2) \<leftarrow> gaussRandom r k1;
       Some (displace c p (fst (displacement c e p g1 g2)) (snd (displacement c e p g1 g2)), k2)
     }"

text \<open>The body of the particle loop.\<close>

definition stepParticle ::
    "config \<Rightarrow> step_globals \<Rightarrow> (nat \<Rightarrow> real) \<Rightarrow> particle \<Rightarrow> nat \<Rightarrow> (particle \<times> nat) option" where
  "stepParticle c e r p k =
     (if \<not> active p then Some (p, k)
      else let p1 = weatherParticle c e p;
               remainFrac = 1 - evaporated p1 - dispersed p1
           in if remainFrac < 0.05 then Some (p1\<lparr>active := False\<rparr>, k)
              else driftParticle c e r (spreadParticle c p1) k)"

fun stepParticles ::
    "config \<Rightarrow> step_globals \<Rightarrow> (nat \<Rightarrow> real) \<Rightarrow> particle list \<Rightarrow> nat \<Rightarrow> (particle list \<times> nat) option" where
  "stepParticles c e r [] k = Some ([], k)"
| "stepParticles c e r (p # ps) k =
     (case stepParticle c e r p k of
        None \<Rightarrow> None
      | Some (p', k') \<Rightarrow>
          (case stepParticles c e r ps k' of
             None \<Rightarrow> None
           | Some (ps', k'') \<Rightarrow> Some (p' # ps', k'')))"

text \<open>The hourly trajectory record, after \<open>time\<close> has advanced.\<close>

definition recordTrajectory :: "config \<Rightarrow> sim \<Rightarrow> sim" where
  "recordTrajectory c s =
     (if jsmod (time s) 3600 < timeStep c
      then (let act = filter active (particles s)
            in if length act > 0
               then s\<lparr>trajectory := trajectory s @
                       [\<lparr>t_time = time s,
                         t_lat = map_option (\<lambda>x. x / real (length act)) (nsum (map lat act)),
                         t_lng = map_option (\<lambda>x. x / real (length act)) (nsum (map lng act))\<rparr>]\<rparr>
               else s)
      else s)"

text \<open>\<open>_step()\<close>.\<close>

definition step :: "config \<Rightarrow> sim \<Rightarrow> sim option" where
  "step c s =
     do {
       s1 \<leftarrow> releasePhase c s;
       (ps, k) \<leftarrow> stepParticles c (stepGlobals c (time s)) (rnd s1) (particles s1) (rpos s1);
       Some (recordTrajectory c (s1\<lparr>particles := ps, rpos := k, time := time s1 + timeStep c\<rparr>))
     }"

subsection \<open>Statistics\<close>

text \<open>\<open>_haversineDistance\<close> on finite coordinates. The square roots are \<open>NaN\<close> when \<open>a\<close> is
  outside \<open>[0, 1]\<close>, which latitudes beyond the poles allow.\<close>

definition haversineDistance :: "real \<Rightarrow> real \<Rightarrow> real \<Rightarrow> real \<Rightarrow> num" where
  "haversineDistance lat1 lng1 lat2 lng2 =
     (let dLatH = (lat2 - lat1) * DEG_TO_RAD;
          dLngH = (lng2 - lng1) * DEG_TO_RAD;
          a = (sin (dLatH / 2)) ^ 2 +
              cos (lat1 * DEG_TO_RAD) * cos (lat2 * DEG_TO_RAD) * (sin (dLngH / 2)) ^ 2
      in if a < 0 \<or> 1 - a < 0 then None
         else Some (2 * EARTH_RADIUS * atan2 (sqrt a) (sqrt (1 - a))))"

definition driftFromSpill :: "config \<Rightarrow> particle \<Rightarrow> num" where
  "driftFromSpill c p =
     do { la \<leftarrow> lat p; lo \<leftarrow> lng p; haversineDistance (spillLat c) (spillLng c) la lo }"

text \<open>The statistics object built when some particle is active.\<close>

definition fullStats :: "config \<Rightarrow> particle list \<Rightarrow> nat \<Rightarrow> stats" where
  "fullStats c act beachedCount =
     (let n = real (length act);
          cLat = map_option (\<lambda>x. x / n) (nsum (map lat act));
          cLng = map_option (\<lambda>x. x / n) (nsum (map lng act));
          latStd = nsqrt (map_option (\<lambda>x. x / n)
                     (nsum (map (\<lambda>p. map_option (\<lambda>x. x ^ 2) (nsub (lat p) cLat)) act)));
          lngStd = nsqrt (map_option (\<lambda>x. x / n)
                     (nsum (map (\<lambda>p. map_option (\<lambda>x. x ^ 2) (nsub (lng p) cLng)) act)));
          latKm = nmul latStd (Some 111.32);
          lngKm = nmul (nmul lngStd (Some 111.32)) (map_option (\<lambda>x. cos (x * DEG_TO_RAD)) cLat);
          areaV = nmul (nmul (nmul (Some pi) latKm) lngKm) (Some 4);
          maxDriftV = foldl (\<lambda>m p. nmax m (driftFromSpill c p)) (Some 0) act;
          rep = hd act
      in \<lparr>area = areaV,
          remaining = (1 - evaporated rep - dispersed rep) * 100,
          s_evaporated = evaporated rep * 100,
          s_dispersed = dispersed rep * 100,
          centerLat = cLat,
          centerLng = cLng,
          maxDrift = map_option (\<lambda>x. x / 1000) maxDriftV,
          s_emulsionWater = Some (emulsionWater rep * 100),
          s_viscosity = Some (p_viscosity rep),
          s_beached = beachedCount\<rparr>)"

text \<open>\<open>_updateStats()\<close>.\<close>

definition updateStats :: "config \<Rightarrow> sim \<Rightarrow> sim" where
  "updateStats c s =
     (let act = filter active (particles s);
          beachedCount = length (filter beached (particles s))
      in if length act = 0 \<and> beachedCount = 0 then s
         else let s1 = s\<lparr>stats := (stats s)\<lparr>s_beached := beachedCount\<rparr>\<rparr>
              in if length act = 0 then s1
                 else s1\<lparr>stats := fullStats c act beachedCount\<rparr>)"

subsection \<open>The driver\<close>

text \<open>The loop of \<open>_tick\<close>: up to \<open>playbackSpeed\<close> steps, each taken while
  \<open>time < maxTime\<close>. At the horizon the run stops (\<open>isRunning = false\<close>) and \<open>_tick\<close> returns
  without the statistics update; the flag of the result says so.\<close>

fun tickSteps :: "config \<Rightarrow> nat \<Rightarrow> sim \<Rightarrow> (sim \<times> bool) option" where
  "tickSteps c 0 s = Some (s, False)"
| "tickSteps c (Suc n) s =
     (if time s \<ge> maxTime c then Some (s\<lparr>isRunning := False\<rparr>, True)
      else (case step c s of
              None \<Rightarrow> None
            | Some s' \<Rightarrow> tickSteps c n s'))"

text \<open>\<open>_tick()\<close> once the frame interval has elapsed (timers and callbacks are not
  modelled).\<close>

definition tick :: "config \<Rightarrow> sim \<Rightarrow> sim option" where
  "tick c s =
     (if \<not> isRunning s \<or> isPaused s then Some s
      else (case tickSteps c (playbackSpeed c) s of
              None \<Rightarrow> None
            | Some (s', completed) \<Rightarrow> if completed then Some s' else Some (updateStats c s')))"

text \<open>\<open>start()\<close>, up to its call of \<open>_tick\<close>.\<close>

definition start :: "config \<Rightarrow> sim \<Rightarrow> sim" where
  "start c s =
     (if length (particles s) = 0 then initialize c s else s)\<lparr>isRunning := True, isPaused := False\<rparr>"

text \<open>The states of a run under a fixed configuration: after \<open>initialize\<close>, then any
  number of steps, each taken while \<open>time < maxTime\<close> as in \<open>_tick\<close>, statistics updates and
  changes of the two driver flags.\<close>

inductive reachable :: "config \<Rightarrow> sim \<Rightarrow> bool" for c :: config where
  reach_init: "reachable c (initialize c s0)"
| reach_step: "reachable c s \<Longrightarrow> time s < maxTime c \<Longrightarrow> step c s = Some s' \<Longrightarrow> reachable c s'"
| reach_stats: "reachable c s \<Longrightarrow> reachable c (updateStats c s)"
| reach_flags: "reachable c s \<Longrightarrow> reachable c (s\<lparr>isRunning := b1, isPaused := b2\<rparr>)"

text \<open>A number of ticks, and a number of steps, in sequence.\<close>

fun run :: "config \<Rightarrow> nat \<Rightarrow> sim \<Rightarrow> sim option" where
  "run c 0 s = Some s"
| "run c (Suc n) s = (case tick c s of None \<Rightarrow> None | Some s' \<Rightarrow> run c n s')"

fun steps :: "config \<Rightarrow> nat \<Rightarrow> sim \<Rightarrow> sim option" where
  "steps c 0 s = Some s"
| "steps c (Suc n) s = (case step c s of None \<Rightarrow> None | Some s' \<Rightarrow> steps c n s')"

text \<open>The constructor of \<open>OilSpillSimulation\<close>: the fields the engine writes, over a given
  stream of random numbers, and the default configuration.\<close>

definition OilSpillSimulation :: "(nat \<Rightarrow> real) \<Rightarrow> sim" where
  "OilSpillSimulation r =
     \<lparr>particles = [], time = 0, isRunning = False, isPaused = False, particlesReleased = 0,
      stats = \<lparr>area = Some 0, remaining = 100, s_evaporated = 0, s_dispersed = 0,
               centerLat = Some 0, centerLng = Some 0, maxDrift = Some 0,
               s_emulsionWater = None, s_viscosity = None, s_beached = 0\<rparr>,
      trajectory = [], rnd = r, rpos = 0\<rparr>"

definition defaultConfig :: config where
  "defaultConfig =
     \<lparr>timeStep = 600, maxTime = 48 * 3600, playbackSpeed = 2, spillLat = 38.5, spillLng = 119.0,
      oilVolume = 500, oilType = crude, particleCount = 1000, spillMode = instant,
      spillDuration = 12, windSpeed = 5.0, windDir = 180, currentSpeed = 0.3, currentDir = 90,
      waterTemp = 18, windGrid = None, currentGrid = None, tempGrid = None, landMask = None,
      useGridData = True, gridTimeOffset = 0\<rparr>"

subsection \<open>Predicates of the properties\<close>

text \<open>The bounds on the weathering fractions of one particle that hold in every run; the
  lower bound on \<open>evaporated\<close> is not among them.\<close>

definition fractionsBounded :: "config \<Rightarrow> particle \<Rightarrow> bool" where
  "fractionsBounded c p =
     (evaporated p \<le> volatileFrac (oilProps c) \<and>
      0 \<le> dispersed p \<and> dispersed p \<le> 0.3 \<and>
      0 \<le> emulsionWater p \<and> emulsionWater p \<le> 0.7)"

text \<open>The times of the trajectory samples, oldest first.\<close>

definition trajTimes :: "sim \<Rightarrow> real list" where
  "trajTimes s = map t_time (trajectory s)"

text \<open>What every state of a run with a positive step satisfies: the time is a multiple of
  the step, the samples are strictly increasing, and each was taken at a step time not
  after the current time at which the hour test of \<open>_step\<close> held.\<close>

definition trajectoryInv :: "config \<Rightarrow> sim \<Rightarrow> bool" where
  "trajectoryInv c s =
     ((\<exists>m::nat. time s = real m * timeStep c) \<and>
      sorted_wrt (<) (trajTimes s) \<and>
      (\<forall>t \<in> set (trajTimes s).
          t \<le> time s \<and> jsmod t 3600 < timeStep c \<and> (\<exists>n::nat. t = real n * timeStep c)))"

text \<open>Consecutive samples are 3600 s apart, up to a tolerance.\<close>

definition hourlySpaced :: "real \<Rightarrow> real list \<Rightarrow> bool" where
  "hourlySpaced tol ts = (\<forall>i. Suc i < length ts \<longrightarrow> \<bar>ts ! Suc i - ts ! i - 3600\<bar> \<le> tol)"

text \<open>The states of a run in which some particle is active after every step.\<close>

inductive liveRun :: "config \<Rightarrow> sim \<Rightarrow> bool" for c :: config where
  live_init: "liveRun c (initialize c s0)"
| live_step: "liveRun c s \<Longrightarrow> time s < maxTime c \<Longrightarrow> step c s = Some s' \<Longrightarrow>
     filter active (particles s') \<noteq> [] \<Longrightarrow> liveRun c s'"
| live_stats: "liveRun c s \<Longrightarrow> liveRun c (updateStats c s)"
| live_flags: "liveRun c s \<Longrightarrow> liveRun c (s\<lparr>isRunning := b1, isPaused := b2\<rparr>)"

text \<open>What every state of such a run satisfies when the step is at most an hour: no hour
  boundary lies between the last sample (or the start) and the current time, and
  consecutive samples are less than an hour and a step apart.\<close>

definition liveInv :: "config \<Rightarrow> sim \<Rightarrow> bool" where
  "liveInv c s =
     (0 \<le> time s \<and>
      \<lfloor>(if trajTimes s = [] then 0 else last (trajTimes s)) / 3600\<rfloor> = \<lfloor>time s / 3600\<rfloor> \<and>
      (trajTimes s \<noteq> [] \<longrightarrow> 0 \<le> last (trajTimes s)) \<and>
      successively (\<lambda>a b. b - a < 3600 + timeStep c) (trajTimes s))"


subsection \<open>Example inputs\<close>

text \<open>A stream of draws: the first two place a particle at half the disk radius due north
  of the spill; every later pair \<open>(1/2, 3/4)\<close> is accepted by \<open>_gaussRandom\<close> and gives the
  deviate 0.\<close>

definition ex_rnd :: "nat \<Rightarrow> real" where
  "ex_rnd n = (if n = 0 then 0 else if n = 1 then 1 / 4 else if even n then 1 / 2 else 3 / 4)"

text \<open>The default configuration with a single particle, no wind and no current, and the
  run it starts.\<close>

definition calm :: config where
  "calm = defaultConfig\<lparr>particleCount := 1, windSpeed := 0, currentSpeed := 0\<rparr>"

definition calm_start :: sim where
  "calm_start = initialize calm (OilSpillSimulation ex_rnd)"

text \<open>The same with a land mask that is land everywhere on 38..39 N, 118..120 E.\<close>

definition land_grid :: field_grid where
  "land_grid = \<lparr>g_lat = [38, 39], g_lon = [118, 120], timeHours = None,
     vars = (\<lambda>v. if v = ''lsm'' then Some [1, 1, 1, 1] else None)\<rparr>"

definition shore :: config where
  "shore = calm\<lparr>landMask := Some land_grid\<rparr>"

definition shore_start :: sim where
  "shore_start = initialize shore (OilSpillSimulation ex_rnd)"

text \<open>A continuous release over ten minutes with a horizon of ten minutes, without and
  with the land mask.\<close>

definition leak :: config where
  "leak = calm\<lparr>spillMode := continuous, spillDuration := 1 / 6, maxTime := 600\<rparr>"


definition leak_shore :: config where
  "leak_shore = leak\<lparr>landMask := Some land_grid\<rparr>"

definition leak_shore_start :: sim where
  "leak_shore_start = initialize leak_shore (OilSpillSimulation ex_rnd)"

text \<open>Steps of one hour and of three hours, and water at -10 degrees.\<close>

definition hourly :: config where
  "hourly = calm\<lparr>timeStep := 3600\<rparr>"

definition hourly_start :: sim where
  "hourly_start = initialize hourly (OilSpillSimulation ex_rnd)"

definition coarse :: config where
  "coarse = calm\<lparr>timeStep := 10800\<rparr>"

definition coarse_start :: sim where
  "coarse_start = initialize coarse (OilSpillSimulation ex_rnd)"

definition cold :: config where
  "cold = hourly\<lparr>waterTemp := - 10\<rparr>"

definition cold_start :: sim where
  "cold_start = initialize cold (OilSpillSimulation ex_rnd)"

text \<open>A wind of -200 m/s, which the engine accepts as it validates no value.\<close>

definition gale :: config where
  "gale = hourly\<lparr>windSpeed := - 200\<rparr>"

definition gale_start :: sim where
  "gale_start = initialize gale (OilSpillSimulation ex_rnd)"

text \<open>Gasoline in a wind of 10 m/s with steps of 1000 hours: the second step finds less
  than 5 percent of the particle remaining.\<close>

definition volatile :: config where
  "volatile = defaultConfig\<lparr>particleCount := 1, oilType := gasoline, windSpeed := 10,
     timeStep := 3600000, maxTime := 7200000\<rparr>"

definition volatile_start :: sim where
  "volatile_start = initialize volatile (OilSpillSimulation ex_rnd)"

text \<open>A continuous release with a horizon of zero, and one over three hours with hourly
  steps, whose single particle is released by the third step.\<close>

definition zero_leak :: config where
  "zero_leak = leak\<lparr>spillDuration := 0, maxTime := 0\<rparr>"


definition late :: config where
  "late = hourly\<lparr>spillMode := continuous, spillDuration := 3\<rparr>"

definition late_start :: sim where
  "late_start = initialize late (OilSpillSimulation ex_rnd)"

section \<open>Properties\<close>

subsection \<open>Evaporation fraction\<close>

lemma sqrt_48_ge_6: "6 \<le> sqrt (48::real)"
  by (rule real_le_rsqrt) simp

text \<open>
  Claim C7. For every oil properties record \<open>P\<close>, elapsed hours \<open>h\<close>, water temperature
  \<open>T\<close> and wind speed \<open>W\<close>, the evaporation fraction is \<open>0\<close> when \<open>h \<le> 0\<close> and otherwise
  \<open>min (K * sqrt h * (1 + 0.01 * W)) (volatileFrac P)\<close> with
  \<open>K = evapRate P * (1 + 0.045 * (T - 15))\<close>; for crude oil at 15 degrees, wind 5 m/s and
  48 hours it is the volatile-fraction cap 0.25.
\<close>

theorem calcEvaporation_formula:
  "calcEvaporation P h T W =
     (if h \<le> 0 then 0
      else min (evapRate P * (1 + 0.045 * (T - 15)) * sqrt h * (1 + 0.01 * W)) (volatileFrac P))
   \<and> calcEvaporation (OIL_PROPERTIES crude) 48 15 5 = 0.25"
proof
  show "calcEvaporation P h T W =
     (if h \<le> 0 then 0
      else min (evapRate P * (1 + 0.045 * (T - 15)) * sqrt h * (1 + 0.01 * W)) (volatileFrac P))"
    by (simp add: calcEvaporation_def Let_def)
next
  have "(0.25::real) \<le> 0.042 * 6 * 1.05" by simp
  also have "\<dots> \<le> 0.042 * sqrt 48 * 1.05"
    using sqrt_48_ge_6 by simp
  finally have "(0.25::real) \<le> 0.042 * sqrt 48 * 1.05" .
  then show "calcEvaporation (OIL_PROPERTIES crude) 48 15 5 = 0.25"
    by (simp add: calcEvaporation_def Let_def min_def)
qed

theorem calcEvaporation_formula_witness:
  "calcEvaporation (OIL_PROPERTIES fuel) 0 18 5 = 0
   \<and> calcEvaporation (OIL_PROPERTIES fuel) 4 15 0 = 0.03"
  using calcEvaporation_formula [of "OIL_PROPERTIES fuel" 0 18 5]
        calcEvaporation_formula [of "OIL_PROPERTIES fuel" 4 15 0]
  by simp


subsection \<open>FieldGrid at grid nodes\<close>

lemmas grid_eval_defs =
  sample_def fracIndex_def latMin_def lonMin_def dLat_def dLon_def nLat_def nLon_def
  latMax_def lonMax_def isTimeVarying_def nTime_def times_def locateTime_def sliceSize_def
  bilinear_def readArr_def contains_def Let_def


lemma fracIndex_node:
  assumes "0 < d" "i < n"
  shows "fracIndex (lo + real i * d) lo d n = Some (real i)"
proof -
  have "(lo + real i * d - lo) / d = real i" using assms by simp
  moreover have "real i \<le> real n - 1" using assms by linarith
  ultimately show ?thesis using assms by (simp add: fracIndex_def)
qed

lemma readArr_nat: "k < length d \<Longrightarrow> readArr d (int k) = Some (d ! k)"
  by (simp add: readArr_def)

lemma cell_index_bound:
  assumes "a + 2 \<le> (m::nat)" "b + 2 \<le> n"
  shows "(a + 1) * n + (b + 1) < m * n"
proof -
  have "(a + 1) * n + (b + 1) < (a + 1) * n + n" using assms by simp
  also have "\<dots> = (a + 2) * n" by simp
  also have "\<dots> \<le> m * n" using assms by (intro mult_le_mono1)
  finally show ?thesis .
qed

lemma bilinear_node:
  assumes "2 \<le> m" "2 \<le> n" "i < m" "j < n" "off + m * n \<le> length d"
  shows "bilinear d (int off) (int n) (min (int i) (int m - 2)) (min (int j) (int n - 2))
           (real i - of_int (min (int i) (int m - 2))) (real j - of_int (min (int j) (int n - 2)))
         = Some (d ! (off + i * n + j))"
proof -
  define a where "a = (if i + 2 \<le> m then i else m - 2)"
  have a: "a + 2 \<le> m" "(a = i) \<or> (i = a + 1 \<and> a + 2 = m)" "min (int i) (int m - 2) = int a"
    using assms(1,3) by (auto simp: a_def min_def)
  define b where "b = (if j + 2 \<le> n then j else n - 2)"
  have b: "b + 2 \<le> n" "(b = j) \<or> (j = b + 1 \<and> b + 2 = n)" "min (int j) (int n - 2) = int b"
    using assms(2,4) by (auto simp: b_def min_def)
  have bound: "(a + 1) * n + (b + 1) < m * n"
    using cell_index_bound[OF a(1) b(1)] .
  have r00: "readArr d (int off + int a * int n + int b) = Some (d ! (off + a * n + b))"
  proof -
    have lt: "off + a * n + b < length d" using bound assms(5) by simp
    have e: "int off + int a * int n + int b = int (off + a * n + b)" by (simp add: algebra_simps)
    show ?thesis unfolding e by (rule readArr_nat [OF lt])
  qed
  have r01: "readArr d (int off + int a * int n + (int b + 1)) = Some (d ! (off + a * n + (b + 1)))"
  proof -
    have lt: "off + a * n + (b + 1) < length d" using bound assms(5) by simp
    have e: "int off + int a * int n + (int b + 1) = int (off + a * n + (b + 1))" by (simp add: algebra_simps)
    show ?thesis unfolding e by (rule readArr_nat [OF lt])
  qed
  have r10: "readArr d (int off + (int a + 1) * int n + int b) = Some (d ! (off + (a + 1) * n + b))"
  proof -
    have lt: "off + (a + 1) * n + b < length d" using bound assms(5) by simp
    have e: "int off + (int a + 1) * int n + int b = int (off + (a + 1) * n + b)" by (simp add: algebra_simps)
    show ?thesis unfolding e by (rule readArr_nat [OF lt])
  qed
  have r11: "readArr d (int off + (int a + 1) * int n + (int b + 1)) = Some (d ! (off + (a + 1) * n + (b + 1)))"
  proof -
    have lt: "off + (a + 1) * n + (b + 1) < length d" using bound assms(5) by simp
    have e: "int off + (int a + 1) * int n + (int b + 1) = int (off + (a + 1) * n + (b + 1))" by (simp add: algebra_simps)
    show ?thesis unfolding e by (rule readArr_nat [OF lt])
  qed
  have val: "bilinear d (int off) (int n) (int a) (int b) (real i - real a) (real j - real b)
      = Some ((1 - (real i - real a)) * (1 - (real j - real b)) * d ! (off + a * n + b)
            + (1 - (real i - real a)) * (real j - real b) * d ! (off + a * n + (b + 1))
            + (real i - real a) * (1 - (real j - real b)) * d ! (off + (a + 1) * n + b)
            + (real i - real a) * (real j - real b) * d ! (off + (a + 1) * n + (b + 1)))"
    unfolding bilinear_def by (simp only: r00 r01 r10 r11 bind.bind_lunit)
  have "bilinear d (int off) (int n) (int a) (int b) (real i - real a) (real j - real b)
      = Some (d ! (off + i * n + j))"
    unfolding val using a(2) b(2) by (auto simp: add_ac)
  then show ?thesis using a(3) b(3) by simp
qed


lemma uniform_lat:
  assumes "uniformAxis (g_lat g)" "i < nLat g"
  shows "2 \<le> nLat g" "0 < dLat g" "g_lat g \<noteq> []" "g_lat g ! i = latMin g + real i * dLat g"
proof -
  show n2: "2 \<le> nLat g" using assms(1) by (simp add: uniformAxis_def nLat_def)
  have lt: "latMin g < latMax g"
    using assms(1) by (simp add: uniformAxis_def nLat_def latMin_def latMax_def)
  have d: "dLat g = (latMax g - latMin g) / (real (nLat g) - 1)" using n2 by (simp add: dLat_def)
  have "0 < real (nLat g) - 1" using n2 by simp
  then show "0 < dLat g" unfolding d using lt by simp
  show "g_lat g \<noteq> []" using n2 by (auto simp: nLat_def)
  have "g_lat g ! i = g_lat g ! 0 +
      real i * ((g_lat g ! (length (g_lat g) - 1) - g_lat g ! 0) / (real (length (g_lat g)) - 1))"
    using assms unfolding uniformAxis_def nLat_def by blast
  then show "g_lat g ! i = latMin g + real i * dLat g"
    unfolding d by (simp only: latMin_def latMax_def nLat_def)
qed

lemma uniform_lon:
  assumes "uniformAxis (g_lon g)" "j < nLon g"
  shows "2 \<le> nLon g" "0 < dLon g" "g_lon g \<noteq> []" "g_lon g ! j = lonMin g + real j * dLon g"
proof -
  show n2: "2 \<le> nLon g" using assms(1) by (simp add: uniformAxis_def nLon_def)
  have lt: "lonMin g < lonMax g"
    using assms(1) by (simp add: uniformAxis_def nLon_def lonMin_def lonMax_def)
  have d: "dLon g = (lonMax g - lonMin g) / (real (nLon g) - 1)" using n2 by (simp add: dLon_def)
  have "0 < real (nLon g) - 1" using n2 by simp
  then show "0 < dLon g" unfolding d using lt by simp
  show "g_lon g \<noteq> []" using n2 by (auto simp: nLon_def)
  have "g_lon g ! j = g_lon g ! 0 +
      real j * ((g_lon g ! (length (g_lon g) - 1) - g_lon g ! 0) / (real (length (g_lon g)) - 1))"
    using assms unfolding uniformAxis_def nLon_def by blast
  then show "g_lon g ! j = lonMin g + real j * dLon g"
    unfolding d by (simp only: lonMin_def lonMax_def nLon_def)
qed

lemma sample_static_node:
  assumes "vars g v = Some d" "uniformAxis (g_lat g)" "uniformAxis (g_lon g)"
    "\<not> isTimeVarying g" "nLat g * nLon g \<le> length d" "i < nLat g" "j < nLon g"
  shows "sample g v (g_lat g ! i) (g_lon g ! j) t = Some (d ! (i * nLon g + j))"
proof -
  note la = uniform_lat [OF assms(2,6)]
  note lo = uniform_lon [OF assms(3,7)]
  have fi: "fracIndex (g_lat g ! i) (latMin g) (dLat g) (nLat g) = Some (real i)"
    unfolding la(4) by (rule fracIndex_node [OF la(2) assms(6)])
  have fj: "fracIndex (g_lon g ! j) (lonMin g) (dLon g) (nLon g) = Some (real j)"
    unfolding lo(4) by (rule fracIndex_node [OF lo(2) assms(7)])
  have b: "bilinear d 0 (int (nLon g)) (min (int i) (int (nLat g) - 2)) (min (int j) (int (nLon g) - 2))
           (real i - of_int (min (int i) (int (nLat g) - 2))) (real j - of_int (min (int j) (int (nLon g) - 2)))
         = Some (d ! (i * nLon g + j))"
    using bilinear_node [OF la(1) lo(1) assms(6,7), of 0 d] assms(5) by simp
  show ?thesis
    unfolding sample_def using assms(1,4) la(3) lo(3) by (simp add: fi fj Let_def b)
qed

lemma searchTime_skip:
  assumes "\<forall>k' \<in> set ks1. \<not> (th \<ge> ts ! k' \<and> th \<le> ts ! (k' + 1))"
  shows "searchTime ts th (ks1 @ ks2) = searchTime ts th ks2"
  using assms by (induction ks1) auto

lemma locateTime_node:
  assumes "sorted_wrt (<) ts" "2 \<le> length ts" "k < length ts"
  shows "locateTime ts (ts ! k) = Some (real k)"
proof -
  have mono: "\<And>a b. a < b \<Longrightarrow> b < length ts \<Longrightarrow> ts ! a < ts ! b"
    using assms(1) by (simp add: sorted_wrt_iff_nth_less)
  consider "k = 0" | "k = length ts - 1" "0 < k" | "0 < k" "k < length ts - 1" using assms by linarith
  then show ?thesis
  proof cases
    case 1
    then show ?thesis by (simp add: locateTime_def)
  next
    case 2
    then have "ts ! 0 < ts ! k" using mono[of 0 k] assms by simp
    then show ?thesis using 2 assms by (simp add: locateTime_def)
  next
    case 3
    have lo: "ts ! 0 < ts ! k" using mono[of 0 k] 3 assms by simp
    have hi: "ts ! k < ts ! (length ts - 1)" using mono[of k "length ts - 1"] 3 assms by simp
    have km: "ts ! (k - 1) < ts ! k" using mono[of "k - 1" k] 3 assms by simp
    have split: "[0..<length ts - 1] = [0..<k - 1] @ (k - 1) # [k..<length ts - 1]"
    proof -
      have "[0..<length ts - 1] = [0..<k - 1] @ [k - 1..<length ts - 1]"
        using 3 by (metis le_add_diff_inverse less_imp_diff_less less_imp_le_nat upt_add_eq_append zero_le)
      also have "[k - 1..<length ts - 1] = (k - 1) # [k..<length ts - 1]"
        using 3 by (simp add: upt_conv_Cons)
      finally show ?thesis .
    qed
    have skip: "\<forall>k' \<in> set [0..<k - 1]. \<not> (ts ! k \<ge> ts ! k' \<and> ts ! k \<le> ts ! (k' + 1))"
    proof
      fix k' assume "k' \<in> set [0..<k - 1]"
      then have "k' + 1 < k" by simp
      then have "ts ! (k' + 1) < ts ! k" using mono[of "k' + 1" k] assms by simp
      then show "\<not> (ts ! k \<ge> ts ! k' \<and> ts ! k \<le> ts ! (k' + 1))" by simp
    qed
    have "searchTime ts (ts ! k) [0..<length ts - 1] = searchTime ts (ts ! k) ((k - 1) # [k..<length ts - 1])"
      unfolding split by (rule searchTime_skip [OF skip])
    also have "\<dots> = Some (real (k - 1) + 1)"
      using km 3 by simp
    also have "\<dots> = Some (real k)" using 3 by simp
    finally show ?thesis using lo hi by (simp add: locateTime_def)
  qed
qed

lemma sample_timed_node:
  assumes "vars g v = Some d" "uniformAxis (g_lat g)" "uniformAxis (g_lon g)"
    "sorted_wrt (<) (times g)" "2 \<le> nTime g" "nTime g * (nLat g * nLon g) \<le> length d"
    "i < nLat g" "j < nLon g" "k < nTime g"
  shows "sample g v (g_lat g ! i) (g_lon g ! j) (Some (times g ! k))
         = Some (d ! (k * (nLat g * nLon g) + i * nLon g + j))"
proof -
  note la = uniform_lat [OF assms(2,7)]
  note lo = uniform_lon [OF assms(3,8)]
  have fi: "fracIndex (g_lat g ! i) (latMin g) (dLat g) (nLat g) = Some (real i)"
    unfolding la(4) by (rule fracIndex_node [OF la(2) assms(7)])
  have fj: "fracIndex (g_lon g ! j) (lonMin g) (dLon g) (nLon g) = Some (real j)"
    unfolding lo(4) by (rule fracIndex_node [OF lo(2) assms(8)])
  have ft: "locateTime (times g) (times g ! k) = Some (real k)"
    using locateTime_node [OF assms(4)] assms(5,9) by (simp add: nTime_def)
  define ss where "ss = nLat g * nLon g"
  define t0 where "t0 = (if k + 2 \<le> nTime g then k else nTime g - 2)"
  have t0: "t0 + 2 \<le> nTime g" "t0 = k \<or> (k = t0 + 1 \<and> t0 + 2 = nTime g)"
    "min (int k) (int (nTime g) - 2) = int t0"
    using assms(5,9) by (auto simp: t0_def min_def)
  have room: "(t0 + 2) * ss \<le> length d"
  proof -
    have "(t0 + 2) * ss \<le> nTime g * ss" using t0(1) by (intro mult_le_mono1)
    then show ?thesis using assms(6) by (simp add: ss_def)
  qed
  have b0: "bilinear d (int t0 * int ss) (int (nLon g)) (min (int i) (int (nLat g) - 2)) (min (int j) (int (nLon g) - 2))
           (real i - of_int (min (int i) (int (nLat g) - 2))) (real j - of_int (min (int j) (int (nLon g) - 2)))
         = Some (d ! (t0 * ss + i * nLon g + j))"
    using bilinear_node [OF la(1) lo(1) assms(7,8), of "t0 * ss" d] room by (simp add: ss_def)
  have b1: "bilinear d ((int t0 + 1) * int ss) (int (nLon g)) (min (int i) (int (nLat g) - 2)) (min (int j) (int (nLon g) - 2))
           (real i - of_int (min (int i) (int (nLat g) - 2))) (real j - of_int (min (int j) (int (nLon g) - 2)))
         = Some (d ! ((t0 + 1) * ss + i * nLon g + j))"
  proof -
    have "int ((t0 + 1) * ss) = (int t0 + 1) * int ss" by (simp add: algebra_simps)
    then show ?thesis
      using bilinear_node [OF la(1) lo(1) assms(7,8), of "(t0 + 1) * ss" d] room
      by (simp add: ss_def algebra_simps)
  qed
  have tv: "isTimeVarying g" using assms(5) by (simp add: isTimeVarying_def)
  have "sample g v (g_lat g ! i) (g_lon g ! j) (Some (times g ! k))
      = Some (d ! (t0 * ss + i * nLon g + j) * (1 - (real k - real t0))
              + d ! ((t0 + 1) * ss + i * nLon g + j) * (real k - real t0))"
    unfolding sample_def using assms(1) tv la(3) lo(3)
    by (simp add: fi fj ft Let_def t0(3) sliceSize_def b0 b1 ss_def [symmetric])
  also have "\<dots> = Some (d ! (k * ss + i * nLon g + j))"
    using t0(2) by auto
  finally show ?thesis by (simp add: ss_def)
qed

lemma single_row_grid_sample: "sample single_row_grid ''u10'' 0 0 None = None"
  by (simp add: single_row_grid_def grid_eval_defs)

text \<open>
  Claim C2. At an exact grid node \<open>sample\<close> should return the stored value, for a static grid
  and, queried at \<open>times[k]\<close>, for a time-varying grid. On grids with at least two nodes on
  every axis it does (\<open>sample_static_node\<close>, \<open>sample_timed_node\<close>). On a time-varying grid
  with one time slice, lat = [0, 1], lon = [0, 1], u10 = [1, 2, 3, 4], queried at the node
  (0, 0) and at time \<open>times[0] = 0\<close>, the stored value is 1 and \<open>sample\<close> returns \<open>NaN\<close>:
  \<open>t0 = min(floor 0, nTime - 2) = -1\<close> and the reads at \<open>t0 * sliceSize + ...\<close> are out of range.
\<close>

theorem sample_single_slice_is_NaN:
  "sample single_slice_grid ''u10'' (g_lat single_slice_grid ! 0) (g_lon single_slice_grid ! 0)
     (Some (times single_slice_grid ! 0)) = None
   \<and> vars single_slice_grid ''u10'' = Some [1, 2, 3, 4]
   \<and> isTimeVarying single_slice_grid"
  by (simp add: single_slice_grid_def grid_eval_defs)

subsection \<open>The Gaussian draw\<close>

lemma gaussRandom_accept:
  assumes "u = r k * 2 - 1" "v = r (k + 1) * 2 - 1" "s = u * u + v * v" "0 < s" "s < 1"
  shows "gaussRandom r k = Some (u * sqrt (- 2 * ln s / s), k + 2)"
proof -
  have "\<not> (s \<ge> 1 \<or> s = 0)" using assms(4,5) by simp
  then show ?thesis
    by (subst gaussRandom.simps) (simp only: Let_def assms(1-3)[symmetric] if_False)
qed

subsection \<open>The flag useGridData without grids\<close>

lemma stepGlobals_flag:
  assumes "\<not> hasGridData c"
  shows "stepGlobals (c\<lparr>useGridData := b\<rparr>) t = stepGlobals c t"
  using assms by (simp add: stepGlobals_def hasGridData_def oilProps_def Let_def)

lemma diskPoint_flag: "diskPoint (c\<lparr>useGridData := b\<rparr>) = diskPoint c"
  by (simp add: diskPoint_def fun_eq_iff Let_def)

lemma releaseOne_flag: "releaseOne (c\<lparr>useGridData := b\<rparr>) s = releaseOne c s"
  by (simp add: releaseOne_def diskPoint_flag Let_def)

lemma releaseLoop_flag: "releaseLoop (c\<lparr>useGridData := b\<rparr>) n s = releaseLoop c n s"
  by (induction n arbitrary: s) (simp_all add: releaseOne_flag)

lemma releasePhase_flag: "releasePhase (c\<lparr>useGridData := b\<rparr>) s = releasePhase c s"
  by (simp add: releasePhase_def targetReleased_def releaseLoop_flag Let_def)

lemma massPerParticle_flag: "massPerParticle (c\<lparr>useGridData := b\<rparr>) = massPerParticle c"
  by (simp add: massPerParticle_def)

lemma gridDrift_flag: "gridDrift (c\<lparr>useGridData := b\<rparr>) t p = gridDrift c t p"
  by (simp add: gridDrift_def Let_def)

lemma displacement_flag: "displacement (c\<lparr>useGridData := b\<rparr>) e p g1 g2 = displacement c e p g1 g2"
  by (simp add: displacement_def gridDrift_flag Let_def)

lemma onLand_flag: "onLand (c\<lparr>useGridData := b\<rparr>) la lo = onLand c la lo"
  by (simp add: onLand_def)

lemma displace_flag: "displace (c\<lparr>useGridData := b\<rparr>) p x y = displace c p x y"
  by (simp add: displace_def onLand_flag Let_def)

lemma driftParticle_flag: "driftParticle (c\<lparr>useGridData := b\<rparr>) e r p k = driftParticle c e r p k"
  by (simp add: driftParticle_def displacement_flag displace_flag)

lemma weatherParticle_flag: "weatherParticle (c\<lparr>useGridData := b\<rparr>) e p = weatherParticle c e p"
  by (simp add: weatherParticle_def oilProps_def Let_def)

lemma spreadParticle_flag: "spreadParticle (c\<lparr>useGridData := b\<rparr>) p = spreadParticle c p"
  by (simp add: spreadParticle_def massPerParticle_flag Let_def)

lemma stepParticle_flag: "stepParticle (c\<lparr>useGridData := b\<rparr>) e r p k = stepParticle c e r p k"
  by (simp add: stepParticle_def weatherParticle_flag spreadParticle_flag driftParticle_flag Let_def)

lemma stepParticles_flag: "stepParticles (c\<lparr>useGridData := b\<rparr>) e r ps k = stepParticles c e r ps k"
  by (induction ps arbitrary: k) (simp_all add: stepParticle_flag split: option.splits prod.splits)

lemma recordTrajectory_flag: "recordTrajectory (c\<lparr>useGridData := b\<rparr>) s = recordTrajectory c s"
  by (simp add: recordTrajectory_def Let_def)

lemma step_flag:
  assumes "\<not> hasGridData c"
  shows "step (c\<lparr>useGridData := b\<rparr>) s = step c s"
  by (simp add: step_def releasePhase_flag stepGlobals_flag [OF assms] stepParticles_flag
      recordTrajectory_flag)

lemma initialize_flag: "initialize (c\<lparr>useGridData := b\<rparr>) s = initialize c s"
  by (simp add: initialize_def initialParticle_def diskPoint_flag massPerParticle_flag
      oilProps_def initStats_def Let_def fun_eq_iff)

lemma fullStats_flag: "fullStats (c\<lparr>useGridData := b\<rparr>) act n = fullStats c act n"
  by (simp add: fullStats_def driftFromSpill_def Let_def)

lemma updateStats_flag: "updateStats (c\<lparr>useGridData := b\<rparr>) s = updateStats c s"
  by (simp add: updateStats_def fullStats_flag Let_def)

lemma tickSteps_flag:
  assumes "\<not> hasGridData c"
  shows "tickSteps (c\<lparr>useGridData := b\<rparr>) n s = tickSteps c n s"
  by (induction n arbitrary: s) (simp_all add: step_flag [OF assms] split: option.splits)

lemma tick_flag:
  assumes "\<not> hasGridData c"
  shows "tick (c\<lparr>useGridData := b\<rparr>) s = tick c s"
  by (simp add: tick_def tickSteps_flag [OF assms] updateStats_flag split: option.splits prod.splits)

lemma start_flag: "start (c\<lparr>useGridData := b\<rparr>) s = start c s"
  by (simp add: start_def initialize_flag)

subsection \<open>Structure of a step\<close>

lemma stepE:
  assumes "step c s = Some s'"
  obtains s1 ps k where
    "releasePhase c s = Some s1"
    "stepParticles c (stepGlobals c (time s)) (rnd s1) (particles s1) (rpos s1) = Some (ps, k)"
    "s' = recordTrajectory c (s1\<lparr>particles := ps, rpos := k, time := time s1 + timeStep c\<rparr>)"
  using assms unfolding step_def
  by (auto simp: bind_eq_Some_conv)

lemma recordTrajectory_fields [simp]:
  "particles (recordTrajectory c s) = particles s"
  "time (recordTrajectory c s) = time s"
  "particlesReleased (recordTrajectory c s) = particlesReleased s"
  "stats (recordTrajectory c s) = stats s"
  "rnd (recordTrajectory c s) = rnd s"
  "rpos (recordTrajectory c s) = rpos s"
  "isRunning (recordTrajectory c s) = isRunning s"
  "isPaused (recordTrajectory c s) = isPaused s"
  by (simp_all add: recordTrajectory_def Let_def)

subsection \<open>The release loop\<close>

lemma releaseOne_fields [simp]:
  "particlesReleased (releaseOne c s) = particlesReleased s + 1"
  "length (particles (releaseOne c s)) = length (particles s)"
  "time (releaseOne c s) = time s"
  "stats (releaseOne c s) = stats s"
  "trajectory (releaseOne c s) = trajectory s"
  "rnd (releaseOne c s) = rnd s"
  "isRunning (releaseOne c s) = isRunning s"
  "isPaused (releaseOne c s) = isPaused s"
  by (simp_all add: releaseOne_def Let_def split: prod.splits)

lemma releaseOne_nth:
  "i \<noteq> particlesReleased s \<Longrightarrow> particles (releaseOne c s) ! i = particles s ! i"
  by (simp add: releaseOne_def Let_def split: prod.splits)

lemma map_update_same: "(map f xs)[k := f (xs ! k)] = map f xs"
  by (metis list_update_id map_update)

lemma releaseOne_map:
  assumes "\<And>p la lo. f (p\<lparr>lat := la, lng := lo, active := True, age := 0\<rparr>) = f p"
  shows "map f (particles (releaseOne c s)) = map f (particles s)"
  by (simp add: releaseOne_def Let_def map_update assms map_update_same split: prod.splits)

lemma releaseLoop_frame:
  assumes "releaseLoop c n s = Some s'"
  shows "length (particles s') = length (particles s) \<and> time s' = time s \<and> stats s' = stats s
    \<and> trajectory s' = trajectory s \<and> rnd s' = rnd s \<and> isRunning s' = isRunning s
    \<and> isPaused s' = isPaused s \<and> particlesReleased s \<le> particlesReleased s'
    \<and> (particlesReleased s \<le> particleCount c \<longrightarrow> particlesReleased s' \<le> particleCount c)"
  using assms
proof (induction n arbitrary: s)
  case 0
  then show ?case by simp
next
  case (Suc n)
  show ?case
  proof (cases "particlesReleased s < particleCount c")
    case True
    with Suc.prems have len: "particlesReleased s < length (particles s)"
      and rec: "releaseLoop c n (releaseOne c s) = Some s'"
      by (auto split: if_splits)
    from Suc.IH [OF rec] True show ?thesis by simp
  next
    case False
    with Suc.prems show ?thesis by simp
  qed
qed

lemma releaseLoop_nth:
  assumes "releaseLoop c n s = Some s'" "i < particlesReleased s"
  shows "particles s' ! i = particles s ! i"
  using assms
proof (induction n arbitrary: s)
  case 0
  then show ?case by simp
next
  case (Suc n)
  show ?case
  proof (cases "particlesReleased s < particleCount c")
    case True
    with Suc.prems have rec: "releaseLoop c n (releaseOne c s) = Some s'"
      by (auto split: if_splits)
    have "particles s' ! i = particles (releaseOne c s) ! i"
      using Suc.IH [OF rec] Suc.prems(2) by simp
    then show ?thesis using Suc.prems(2) by (simp add: releaseOne_nth)
  next
    case False
    with Suc.prems show ?thesis by simp
  qed
qed

lemma releaseLoop_map:
  assumes "\<And>p la lo. f (p\<lparr>lat := la, lng := lo, active := True, age := 0\<rparr>) = f p"
    and "releaseLoop c n s = Some s'"
  shows "map f (particles s') = map f (particles s)"
  using assms(2)
proof (induction n arbitrary: s)
  case 0
  then show ?case by simp
next
  case (Suc n)
  show ?case
  proof (cases "particlesReleased s < particleCount c")
    case True
    with Suc.prems have rec: "releaseLoop c n (releaseOne c s) = Some s'"
      by (auto split: if_splits)
    show ?thesis using Suc.IH [OF rec] by (simp add: releaseOne_map [of f, OF assms(1)])
  next
    case False
    with Suc.prems show ?thesis by simp
  qed
qed


lemma releasePhase_cases:
  assumes "releasePhase c s = Some s'"
  shows "s' = s \<or> (\<exists>n. releaseLoop c n s = Some s')"
  using assms unfolding releasePhase_def
  by (auto split: if_splits option.splits)

lemma releasePhase_frame:
  assumes "releasePhase c s = Some s'"
  shows "length (particles s') = length (particles s) \<and> time s' = time s \<and> stats s' = stats s
    \<and> trajectory s' = trajectory s \<and> rnd s' = rnd s \<and> isRunning s' = isRunning s
    \<and> isPaused s' = isPaused s \<and> particlesReleased s \<le> particlesReleased s'
    \<and> (particlesReleased s \<le> particleCount c \<longrightarrow> particlesReleased s' \<le> particleCount c)"
  using releasePhase_cases [OF assms] releaseLoop_frame by auto

lemma releasePhase_nth:
  assumes "releasePhase c s = Some s'" "i < particlesReleased s"
  shows "particles s' ! i = particles s ! i"
  using releasePhase_cases [OF assms(1)] releaseLoop_nth assms(2) by auto

lemma releasePhase_map:
  assumes "\<And>p la lo. f (p\<lparr>lat := la, lng := lo, active := True, age := 0\<rparr>) = f p"
    and "releasePhase c s = Some s'"
  shows "map f (particles s') = map f (particles s)"
  using releasePhase_cases [OF assms(2)] releaseLoop_map [of f, OF assms(1)] by auto




subsection \<open>The particle loop\<close>

lemma stepParticles_all2:
  assumes "\<And>p k p' k'. stepParticle c e r p k = Some (p', k') \<Longrightarrow> R p p'"
    and "stepParticles c e r ps k = Some (ps', k')"
  shows "list_all2 R ps ps'"
  using assms(2)
proof (induction ps arbitrary: k ps')
  case Nil
  then show ?case by simp
next
  case (Cons p ps)
  from Cons.prems obtain p1 k1 ps1 where
    a: "stepParticle c e r p k = Some (p1, k1)"
    and b: "stepParticles c e r ps k1 = Some (ps1, k')"
    and c: "ps' = p1 # ps1"
    by (auto split: option.splits prod.splits)
  show ?case unfolding c using assms(1) [OF a] Cons.IH [OF b] by simp
qed

lemma stepParticle_cases:
  assumes "stepParticle c e r p k = Some (p', k')"
  obtains (inactive) "\<not> active p" "p' = p" "k' = k"
  | (weathered) "active p"
      "1 - evaporated (weatherParticle c e p) - dispersed (weatherParticle c e p) < 0.05"
      "p' = (weatherParticle c e p)\<lparr>active := False\<rparr>" "k' = k"
  | (drifted) g1 g2 where "active p"
      "\<not> 1 - evaporated (weatherParticle c e p) - dispersed (weatherParticle c e p) < 0.05"
      "p' = displace c (spreadParticle c (weatherParticle c e p))
              (fst (displacement c e (spreadParticle c (weatherParticle c e p)) g1 g2))
              (snd (displacement c e (spreadParticle c (weatherParticle c e p)) g1 g2))"
  using assms unfolding stepParticle_def driftParticle_def
  by (auto simp: Let_def bind_eq_Some_conv split: if_splits)

subsection \<open>The loop body, field by field\<close>

lemma weatherParticle_fields [simp]:
  "lat (weatherParticle c e p) = lat p"
  "lng (weatherParticle c e p) = lng p"
  "mass (weatherParticle c e p) = mass p"
  "active (weatherParticle c e p) = active p"
  "beached (weatherParticle c e p) = beached p"
  "thickness (weatherParticle c e p) = thickness p"
  "age (weatherParticle c e p) = age p + timeStep c"
  "evaporated (weatherParticle c e p) = min (evapFraction e) (volatileFrac (oilProps c))"
  "dispersed (weatherParticle c e p) = min (dispersFraction e) 0.3"
  "emulsionWater (weatherParticle c e p) = emulsionWaterG e"
  by (simp_all add: weatherParticle_def Let_def)

lemma spreadParticle_fields [simp]:
  "lat (spreadParticle c p) = lat p"
  "lng (spreadParticle c p) = lng p"
  "active (spreadParticle c p) = active p"
  "beached (spreadParticle c p) = beached p"
  "age (spreadParticle c p) = age p"
  "evaporated (spreadParticle c p) = evaporated p"
  "dispersed (spreadParticle c p) = dispersed p"
  "emulsionWater (spreadParticle c p) = emulsionWater p"
  "p_viscosity (spreadParticle c p) = p_viscosity p"
  by (simp_all add: spreadParticle_def Let_def)

lemma spreadParticle_thickness:
  "thickness (spreadParticle c p) =
     (if age p / 3600 > 0 then 0.01 * (age p / 3600) powr (- 0.33) else thickness p)"
  by (simp add: spreadParticle_def Let_def)

lemma displace_fields [simp]:
  "mass (displace c p x y) = mass p"
  "age (displace c p x y) = age p"
  "thickness (displace c p x y) = thickness p"
  "evaporated (displace c p x y) = evaporated p"
  "dispersed (displace c p x y) = dispersed p"
  "emulsionWater (displace c p x y) = emulsionWater p"
  "p_viscosity (displace c p x y) = p_viscosity p"
  by (simp_all add: displace_def Let_def)

lemma displace_flags:
  "beached (displace c p x y) = (beached p \<or> onLand c (nadd (lat p) x) (nadd (lng p) y))"
  "active (displace c p x y) = (active p \<and> \<not> onLand c (nadd (lat p) x) (nadd (lng p) y))"
  by (simp_all add: displace_def Let_def)

lemma onLand_finite:
  assumes "onLand c la lo"
  shows "\<exists>a b. la = Some a \<and> lo = Some b"
  using assms unfolding onLand_def by (auto split: option.splits)

lemma nsub_nadd:
  assumes "nadd a x = Some v"
  shows "nsub (nadd a x) x = a"
  using assms unfolding nadd_def nsub_def by (auto simp: bind_eq_Some_conv)

lemma displace_position:
  "lat (displace c p x y) =
     (if onLand c (nadd (lat p) x) (nadd (lng p) y) then lat p else nadd (lat p) x)"
  "lng (displace c p x y) =
     (if onLand c (nadd (lat p) x) (nadd (lng p) y) then lng p else nadd (lng p) y)"
proof -
  have "lat (displace c p x y) = lat p \<and> lng (displace c p x y) = lng p"
    if h: "onLand c (nadd (lat p) x) (nadd (lng p) y)"
  proof -
    obtain a b where ab: "nadd (lat p) x = Some a" "nadd (lng p) y = Some b"
      using onLand_finite [OF h] by blast
    show ?thesis using h nsub_nadd [OF ab(1)] nsub_nadd [OF ab(2)]
      by (simp add: displace_def Let_def)
  qed
  moreover have "lat (displace c p x y) = nadd (lat p) x \<and> lng (displace c p x y) = nadd (lng p) y"
    if "\<not> onLand c (nadd (lat p) x) (nadd (lng p) y)"
    using that by (simp add: displace_def Let_def)
  ultimately show
    "lat (displace c p x y) =
     (if onLand c (nadd (lat p) x) (nadd (lng p) y) then lat p else nadd (lat p) x)"
    "lng (displace c p x y) =
     (if onLand c (nadd (lat p) x) (nadd (lng p) y) then lng p else nadd (lng p) y)"
    by auto
qed

lemma stepParticle_grounding:
  assumes "stepParticle c e r p k = Some (p', k')" "\<not> beached p" "beached p'"
  shows "lat p' = lat p \<and> lng p' = lng p \<and> \<not> active p' \<and> active p
    \<and> (\<exists>x y. onLand c (nadd (lat p) x) (nadd (lng p) y))"
  using assms(1)
proof (cases rule: stepParticle_cases)
  case inactive
  then show ?thesis using assms(2,3) by simp
next
  case weathered
  then show ?thesis using assms(2,3) by simp
next
  case (drifted g1 g2)
  define q where "q = spreadParticle c (weatherParticle c e p)"
  define x where "x = fst (displacement c e q g1 g2)"
  define y where "y = snd (displacement c e q g1 g2)"
  have p': "p' = displace c q x y" using drifted(3) by (simp add: q_def x_def y_def)
  have q: "lat q = lat p" "lng q = lng p" "beached q = beached p" by (simp_all add: q_def)
  have land: "onLand c (nadd (lat p) x) (nadd (lng p) y)"
    using assms(2,3) unfolding p' by (simp add: displace_flags q)
  then show ?thesis
    using drifted(1) unfolding p' by (auto simp: displace_position displace_flags q)
qed

lemma stepParticle_beached_mono:
  assumes "stepParticle c e r p k = Some (p', k')" "beached p"
  shows "beached p'"
  using assms(1)
  by (cases rule: stepParticle_cases) (simp_all add: assms(2) displace_flags)

lemma stepParticle_inactive:
  assumes "stepParticle c e r p k = Some (p', k')" "\<not> active p"
  shows "p' = p"
  using assms by (simp add: stepParticle_def)

subsection \<open>Steps, particle by particle\<close>

lemma step_particle_rel:
  assumes "step c s = Some s'"
    and "\<And>p k p' k'. stepParticle c (stepGlobals c (time s)) (rnd s) p k = Some (p', k') \<Longrightarrow> R p p'"
  shows "\<exists>s1. releasePhase c s = Some s1 \<and> list_all2 R (particles s1) (particles s')"
proof -
  from assms(1) obtain s1 ps k where
    a: "releasePhase c s = Some s1"
    and b: "stepParticles c (stepGlobals c (time s)) (rnd s1) (particles s1) (rpos s1) = Some (ps, k)"
    and c: "s' = recordTrajectory c (s1\<lparr>particles := ps, rpos := k, time := time s1 + timeStep c\<rparr>)"
    by (rule stepE)
  have rnd: "rnd s1 = rnd s" using releasePhase_frame [OF a] by simp
  have "list_all2 R (particles s1) ps"
  proof (rule stepParticles_all2)
    show "\<And>p k p' k'. stepParticle c (stepGlobals c (time s)) (rnd s) p k = Some (p', k') \<Longrightarrow> R p p'"
      by (rule assms(2))
    show "stepParticles c (stepGlobals c (time s)) (rnd s) (particles s1) (rpos s1) = Some (ps, k)"
      using b rnd by simp
  qed
  then have "list_all2 R (particles s1) (particles s')" unfolding c by simp
  with a show ?thesis by blast
qed

text \<open>
  Claim C4, as amended. For every particle that is not beached before a step and beached
  after it: the particle is inactive after the step, the land mask test succeeded at a
  displaced position, and its latitude and longitude after the step are those it had after
  the release phase of that step. If the particle had been released before the step (its
  index is below \<open>_particlesReleased\<close> at the start of the step), these are its latitude and
  longitude at the start of the step. A particle that the same step releases and grounds
  keeps the position of its release, not the one it had at the start of the step.
\<close>

theorem grounding_reverts_position:
  assumes "step c s = Some s'" "i < length (particles s)"
    "\<not> beached (particles s ! i)" "beached (particles s' ! i)"
  shows "\<not> active (particles s' ! i)
    \<and> (\<exists>s1. releasePhase c s = Some s1
          \<and> lat (particles s' ! i) = lat (particles s1 ! i)
          \<and> lng (particles s' ! i) = lng (particles s1 ! i)
          \<and> (\<exists>x y. onLand c (nadd (lat (particles s1 ! i)) x) (nadd (lng (particles s1 ! i)) y)))
    \<and> (i < particlesReleased s \<longrightarrow>
          lat (particles s' ! i) = lat (particles s ! i)
          \<and> lng (particles s' ! i) = lng (particles s ! i))"
proof -
  define R where "R = (\<lambda>(p::particle) (p'::particle). \<not> beached p \<longrightarrow> beached p' \<longrightarrow>
     lat p' = lat p \<and> lng p' = lng p \<and> \<not> active p' \<and> active p
     \<and> (\<exists>x y. onLand c (nadd (lat p) x) (nadd (lng p) y)))"
  have body: "\<And>p k p' k'. stepParticle c (stepGlobals c (time s)) (rnd s) p k = Some (p', k') \<Longrightarrow> R p p'"
    unfolding R_def using stepParticle_grounding by blast
  have "\<exists>s1. releasePhase c s = Some s1 \<and> list_all2 R (particles s1) (particles s')"
    by (rule step_particle_rel [OF assms(1)]) (rule body)
  then obtain s1 where s1: "releasePhase c s = Some s1" "list_all2 R (particles s1) (particles s')"
    by blast
  have len: "length (particles s1) = length (particles s)"
    using releasePhase_frame [OF s1(1)] by simp
  have "map beached (particles s1) = map beached (particles s)"
    by (rule releasePhase_map [OF _ s1(1)]) simp
  then have b1: "beached (particles s1 ! i) = beached (particles s ! i)"
    using assms(2) len by (metis nth_map)
  have Ri: "R (particles s1 ! i) (particles s' ! i)"
    using s1(2) assms(2) len by (simp add: list_all2_nthD)
  have main: "lat (particles s' ! i) = lat (particles s1 ! i) \<and> lng (particles s' ! i) = lng (particles s1 ! i)
     \<and> \<not> active (particles s' ! i)
     \<and> (\<exists>x y. onLand c (nadd (lat (particles s1 ! i)) x) (nadd (lng (particles s1 ! i)) y))"
    using Ri assms(3,4) b1 unfolding R_def by blast
  have same: "particles s1 ! i = particles s ! i" if "i < particlesReleased s"
    using releasePhase_nth [OF s1(1) that] .
  show ?thesis using main s1(1) same by auto
qed

text \<open>
  Claim C1, as amended. Let \<open>s1\<close> be the state after the release phase of a step and \<open>s'\<close>
  the state after the step. For every particle that is active in \<open>s1\<close> the step adds the step
  size to the age. If the remaining fraction of the particle after weathering is not below
  0.05 and the new age is positive, the step sets the thickness to
  \<open>0.01 * (age / 3600) powr (-0.33)\<close> with the new age: the exponent is the literal \<open>-0.33\<close> of
  the source, not minus one third. If the remaining fraction is not below 0.05 and the new
  age is not positive, the thickness stays what it was at the start of the step. If the
  remaining fraction is below 0.05, the step deactivates the particle and its thickness stays
  what it was at the start of the step.
\<close>

theorem fay_thickness_exponent:
  assumes "step c s = Some s'" "releasePhase c s = Some s1" "i < length (particles s1)"
    "active (particles s1 ! i)"
  shows "age (particles s' ! i) = age (particles s1 ! i) + timeStep c
    \<and> (\<not> 1 - evaporated (particles s' ! i) - dispersed (particles s' ! i) < 0.05
          \<and> 0 < age (particles s' ! i) \<longrightarrow>
        thickness (particles s' ! i) = 0.01 * (age (particles s' ! i) / 3600) powr (- 0.33))
    \<and> (\<not> 1 - evaporated (particles s' ! i) - dispersed (particles s' ! i) < 0.05
          \<and> \<not> 0 < age (particles s' ! i) \<longrightarrow>
        thickness (particles s' ! i) = thickness (particles s ! i))
    \<and> (1 - evaporated (particles s' ! i) - dispersed (particles s' ! i) < 0.05 \<longrightarrow>
        \<not> active (particles s' ! i)
        \<and> thickness (particles s' ! i) = thickness (particles s ! i))"
proof -
  define R where "R = (\<lambda>(p::particle) (p'::particle). active p \<longrightarrow>
     age p' = age p + timeStep c
     \<and> (\<not> 1 - evaporated p' - dispersed p' < 0.05 \<and> 0 < age p' \<longrightarrow>
          thickness p' = 0.01 * (age p' / 3600) powr (- 0.33))
     \<and> (\<not> 1 - evaporated p' - dispersed p' < 0.05 \<and> \<not> 0 < age p' \<longrightarrow>
          thickness p' = thickness p)
     \<and> (1 - evaporated p' - dispersed p' < 0.05 \<longrightarrow> \<not> active p' \<and> thickness p' = thickness p))"
  have body: "R p p'" if h: "stepParticle c (stepGlobals c (time s)) (rnd s) p k = Some (p', k')"
    for p k p' k'
    using h
  proof (cases rule: stepParticle_cases)
    case inactive
    then show ?thesis by (simp add: R_def)
  next
    case weathered
    then show ?thesis by (simp add: R_def)
  next
    case (drifted g1 g2)
    then show ?thesis by (simp add: R_def spreadParticle_thickness)
  qed
  have "\<exists>s1'. releasePhase c s = Some s1' \<and> list_all2 R (particles s1') (particles s')"
    by (rule step_particle_rel [OF assms(1)]) (rule body)
  then have l: "list_all2 R (particles s1) (particles s')" using assms(2) by simp
  have "map thickness (particles s1) = map thickness (particles s)"
    by (rule releasePhase_map [OF _ assms(2)]) simp
  then have th: "thickness (particles s1 ! i) = thickness (particles s ! i)"
    using assms(3) releasePhase_frame [OF assms(2)] by (metis nth_map)
  have "R (particles s1 ! i) (particles s' ! i)"
    using l assms(3) by (simp add: list_all2_nthD)
  then show ?thesis using assms(4) th unfolding R_def by simp
qed

subsection \<open>Bounds of the weathering functions\<close>

lemma calcEvaporation_le: "0 \<le> volatileFrac P \<Longrightarrow> calcEvaporation P h T W \<le> volatileFrac P"
  by (simp add: calcEvaporation_def Let_def)

lemma calcEvaporation_ge:
  assumes "0 \<le> evapRate P" "0 \<le> volatileFrac P" "0 \<le> 1 + 0.045 * (T - 15)" "0 \<le> 1 + 0.01 * W"
  shows "0 \<le> calcEvaporation P h T W"
proof (cases "h \<le> 0")
  case True
  then show ?thesis by (simp add: calcEvaporation_def)
next
  case False
  have "0 \<le> evapRate P * (1 + 0.045 * (T - 15)) * sqrt h * (1 + 0.01 * W)"
    using assms False by (intro mult_nonneg_nonneg) simp_all
  then show ?thesis using False assms(2) by (simp add: calcEvaporation_def Let_def)
qed

lemma calcDispersion_bounds:
  assumes "0 \<le> dispersibility P"
  shows "0 \<le> calcDispersion P W h \<and> calcDispersion P W h \<le> 0.3"
proof (cases "h \<le> 0 \<or> W < 5")
  case True
  then show ?thesis by (auto simp: calcDispersion_def)
next
  case False
  have "0 \<le> 0.0034 * dispersibility P * (W ^ 2 * 0.001) * h"
    using assms False by (intro mult_nonneg_nonneg) simp_all
  then show ?thesis using False by (simp add: calcDispersion_def Let_def)
qed

lemma calcEmulsion_bounds: "0 \<le> calcEmulsion h W \<and> calcEmulsion h W \<le> 0.7"
proof (cases "h \<le> 0 \<or> W < 3")
  case True
  then show ?thesis by (auto simp: calcEmulsion_def)
next
  case False
  have "0 \<le> (2 / 1000000) * (W + 1) ^ 2 * h * 3600"
    using False by (intro mult_nonneg_nonneg) simp_all
  then have "exp (- ((2 / 1000000) * (W + 1) ^ 2) * h * 3600) \<le> 1"
    by simp
  then have "0 \<le> 0.7 * (1 - exp (- ((2 / 1000000) * (W + 1) ^ 2) * h * 3600))"
    by simp
  then show ?thesis using False by (simp add: calcEmulsion_def Let_def)
qed

lemma OIL_PROPERTIES_pos:
  "0 < evapRate (OIL_PROPERTIES k)" "0 < volatileFrac (OIL_PROPERTIES k)"
  "0 < dispersibility (OIL_PROPERTIES k)" "0 < viscosity (OIL_PROPERTIES k)"
  by (cases k; simp)+

lemma stepGlobals_weathering:
  "evapFraction (stepGlobals c t) = calcEvaporation (oilProps c) (t / 3600) (waterTemp c) (repWs (stepGlobals c t))"
  "dispersFraction (stepGlobals c t) = calcDispersion (oilProps c) (repWs (stepGlobals c t)) (t / 3600)"
  "emulsionWaterG (stepGlobals c t) = calcEmulsion (t / 3600) (repWs (stepGlobals c t))"
  by (simp_all add: stepGlobals_def Let_def)

lemma windFactor_nonneg:
  assumes "useGridData c \<and> hasGridData c \<or> - 1000 / 11 \<le> windSpeed c"
  shows "0 \<le> 1 + 0.01 * repWs (stepGlobals c t)"
proof (cases "useGridData c \<and> hasGridData c")
  case True
  then show ?thesis by (simp add: stepGlobals_def Let_def)
next
  case False
  then have w: "- 1000 / 11 \<le> windSpeed c" using assms by blast
  define v where "v = 1 + sin (t * 0.0002) * 0.1"
  have v: "0 \<le> v" "v \<le> 1.1"
    using sin_ge_minus_one [of "t * 0.0002"] sin_le_one [of "t * 0.0002"]
    unfolding v_def by linarith+
  have r: "repWs (stepGlobals c t) = windSpeed c * v"
    using False by (auto simp: stepGlobals_def Let_def v_def)
  have "- 100 \<le> windSpeed c * v"
  proof (cases "0 \<le> windSpeed c")
    case True
    then have "0 \<le> windSpeed c * v" using v(1) by (intro mult_nonneg_nonneg)
    then show ?thesis by simp
  next
    case False
    then have "windSpeed c * 1.1 \<le> windSpeed c * v"
      using v(2) by (intro mult_left_mono_neg) simp_all
    then show ?thesis using w by simp
  qed
  then show ?thesis unfolding r by simp
qed

lemma weatherParticle_bounded:
  "fractionsBounded c (weatherParticle c (stepGlobals c t) p)"
proof -
  have vf: "0 \<le> dispersibility (oilProps c)"
    using OIL_PROPERTIES_pos [of "oilType c"] by (simp add: oilProps_def)
  have d: "0 \<le> dispersFraction (stepGlobals c t)"
    unfolding stepGlobals_weathering using calcDispersion_bounds [OF vf] by blast
  have m: "0 \<le> emulsionWaterG (stepGlobals c t)" "emulsionWaterG (stepGlobals c t) \<le> 0.7"
    unfolding stepGlobals_weathering using calcEmulsion_bounds by blast+
  show ?thesis unfolding fractionsBounded_def using d m by simp
qed

lemma weatherParticle_evaporated_nonneg:
  assumes "0 \<le> 1 + 0.045 * (waterTemp c - 15)"
    "useGridData c \<and> hasGridData c \<or> - 1000 / 11 \<le> windSpeed c"
  shows "0 \<le> evaporated (weatherParticle c (stepGlobals c t) p)"
proof -
  have vf: "0 \<le> volatileFrac (oilProps c)" "0 \<le> evapRate (oilProps c)"
    using OIL_PROPERTIES_pos [of "oilType c"] by (simp_all add: oilProps_def)
  have "0 \<le> evapFraction (stepGlobals c t)"
    unfolding stepGlobals_weathering
    by (rule calcEvaporation_ge [OF vf(2) vf(1) assms(1) windFactor_nonneg [OF assms(2)]])
  then show ?thesis using vf(1) by simp
qed

lemma stepParticle_bounded:
  assumes "stepParticle c (stepGlobals c t) r p k = Some (p', k')" "fractionsBounded c p"
  shows "fractionsBounded c p'"
  using assms(1)
proof (cases rule: stepParticle_cases)
  case inactive
  then show ?thesis using assms(2) by simp
next
  case weathered
  then show ?thesis
    using weatherParticle_bounded [of c t p] by (simp add: fractionsBounded_def)
next
  case (drifted g1 g2)
  then show ?thesis
    using weatherParticle_bounded [of c t p] by (simp add: fractionsBounded_def)
qed

lemma stepParticle_evaporated_nonneg:
  assumes "0 \<le> 1 + 0.045 * (waterTemp c - 15)"
    "useGridData c \<and> hasGridData c \<or> - 1000 / 11 \<le> windSpeed c"
    and "stepParticle c (stepGlobals c t) r p k = Some (p', k')" "0 \<le> evaporated p"
  shows "0 \<le> evaporated p'"
  using assms(3)
proof (cases rule: stepParticle_cases)
  case inactive
  then show ?thesis using assms(4) by simp
next
  case weathered
  then show ?thesis
    using weatherParticle_evaporated_nonneg [OF assms(1,2), of t p] by simp
next
  case (drifted g1 g2)
  then show ?thesis
    using weatherParticle_evaporated_nonneg [OF assms(1,2), of t p] by simp
qed

subsection \<open>Fields of the other operations\<close>

lemma updateStats_fields [simp]:
  "particles (updateStats c s) = particles s"
  "time (updateStats c s) = time s"
  "particlesReleased (updateStats c s) = particlesReleased s"
  "trajectory (updateStats c s) = trajectory s"
  "rnd (updateStats c s) = rnd s"
  "rpos (updateStats c s) = rpos s"
  by (simp_all add: updateStats_def Let_def)

lemma initialize_fields [simp]:
  "time (initialize c s) = 0"
  "trajectory (initialize c s) = []"
  "stats (initialize c s) = initStats c"
  "length (particles (initialize c s)) = particleCount c"
  "rnd (initialize c s) = rnd s"
  by (simp_all add: initialize_def)

lemma initialize_released:
  "particlesReleased (initialize c s) = (if spillMode c = continuous then 0 else particleCount c)"
  by (simp add: initialize_def)

lemma initialize_particle:
  assumes "p \<in> set (particles (initialize c s))"
  shows "evaporated p = 0 \<and> dispersed p = 0 \<and> emulsionWater p = 0 \<and> \<not> beached p \<and> age p = 0
     \<and> thickness p = 0.01 \<and> active p = (spillMode c \<noteq> continuous)"
  using assms
  by (auto simp: initialize_def initialParticle_def OilParticle_def Let_def split: if_splits prod.splits)

lemma step_fields:
  assumes "step c s = Some s'"
  shows "time s' = time s + timeStep c" "stats s' = stats s" "rnd s' = rnd s"
    "length (particles s') = length (particles s)"
    "particlesReleased s \<le> particlesReleased s'"
    "particlesReleased s \<le> particleCount c \<Longrightarrow> particlesReleased s' \<le> particleCount c"
proof -
  from assms obtain s1 ps k where
    a: "releasePhase c s = Some s1"
    and b: "stepParticles c (stepGlobals c (time s)) (rnd s1) (particles s1) (rpos s1) = Some (ps, k)"
    and c: "s' = recordTrajectory c (s1\<lparr>particles := ps, rpos := k, time := time s1 + timeStep c\<rparr>)"
    by (rule stepE)
  note f = releasePhase_frame [OF a]
  have "list_all2 (\<lambda>p p'. True) (particles s1) ps"
    by (rule stepParticles_all2 [OF _ b]) simp
  then have len: "length ps = length (particles s1)" by (simp add: list_all2_lengthD)
  show "time s' = time s + timeStep c" "stats s' = stats s" "rnd s' = rnd s"
    "length (particles s') = length (particles s)"
    "particlesReleased s \<le> particlesReleased s'"
    using f len unfolding c by simp_all
  show "particlesReleased s' \<le> particleCount c" if "particlesReleased s \<le> particleCount c"
    using f that unfolding c by simp
qed

subsection \<open>Invariants of a run\<close>

lemma reachable_shape:
  assumes "reachable c s"
  shows "length (particles s) = particleCount c \<and> particlesReleased s \<le> particleCount c
    \<and> (0 \<le> timeStep c \<longrightarrow> 0 \<le> time s)"
  using assms
proof (induction rule: reachable.induct)
  case (reach_init s0)
  show ?case by (simp add: initialize_released)
next
  case (reach_step s s')
  show ?case using step_fields [OF reach_step.hyps(3)] reach_step.IH by auto
next
  case (reach_stats s)
  then show ?case by simp
next
  case (reach_flags s b1 b2)
  then show ?case by simp
qed

text \<open>The driver stays within these states.\<close>

lemma tickSteps_reachable:
  assumes "reachable c s" "tickSteps c n s = Some (s', b)"
  shows "reachable c s'"
  using assms
proof (induction n arbitrary: s)
  case 0
  then show ?case by simp
next
  case (Suc n)
  show ?case
  proof (cases "maxTime c \<le> time s")
    case True
    then have "s' = s\<lparr>isRunning := False, isPaused := isPaused s\<rparr>" using Suc.prems(2) by auto
    then show ?thesis using reach_flags [OF Suc.prems(1), where ?b1.0 = False and ?b2.0 = "isPaused s"] by simp
  next
    case False
    then obtain s1 where s1: "step c s = Some s1" "tickSteps c n s1 = Some (s', b)"
      using Suc.prems(2) by (auto split: option.splits)
    have "reachable c s1" by (rule reach_step [OF Suc.prems(1) _ s1(1)]) (use False in simp)
    then show ?thesis by (rule Suc.IH [OF _ s1(2)])
  qed
qed

lemma tick_reachable:
  assumes "reachable c s" "tick c s = Some s'"
  shows "reachable c s'"
proof (cases "\<not> isRunning s \<or> isPaused s")
  case True
  then show ?thesis using assms by (simp add: tick_def)
next
  case False
  then obtain s1 b where s1: "tickSteps c (playbackSpeed c) s = Some (s1, b)"
      "s' = (if b then s1 else updateStats c s1)"
    using assms(2) by (auto simp: tick_def split: option.splits if_splits)
  have "reachable c s1" by (rule tickSteps_reachable [OF assms(1) s1(1)])
  then show ?thesis using s1(2) reach_stats by simp
qed


lemma run_reachable:
  assumes "reachable c s" "run c n s = Some s'"
  shows "reachable c s'"
  using assms
proof (induction n arbitrary: s)
  case 0
  then show ?case by simp
next
  case (Suc n)
  then obtain s1 where s1: "tick c s = Some s1" "run c n s1 = Some s'"
    by (auto split: option.splits)
  show ?case by (rule Suc.IH [OF tick_reachable [OF Suc.prems(1) s1(1)] s1(2)])
qed

subsection \<open>Release schedule\<close>







subsection \<open>Weathering fractions stay in range\<close>

lemma list_all_map_eq:
  assumes "map f xs = map f ys"
  shows "list_all f xs = list_all f ys"
proof -
  have "list_all f xs = list_all (\<lambda>b. b) (map f xs)" by (simp add: list_all_iff)
  also have "\<dots> = list_all (\<lambda>b. b) (map f ys)" using assms by simp
  also have "\<dots> = list_all f ys" by (simp add: list_all_iff)
  finally show ?thesis .
qed

lemma list_all2_preserve:
  assumes "list_all2 (\<lambda>x y. P x \<longrightarrow> P y) xs ys" "list_all P xs"
  shows "list_all P ys"
  using assms by (induction rule: list_all2_induct) auto

lemma reachable_preserved:
  assumes "reachable c s"
    and init: "\<And>s0. list_all P (particles (initialize c s0))"
    and rel: "\<And>p la lo. P (p\<lparr>lat := la, lng := lo, active := True, age := 0\<rparr>) = P p"
    and body: "\<And>t r p k p' k'. stepParticle c (stepGlobals c t) r p k = Some (p', k') \<Longrightarrow> P p \<Longrightarrow> P p'"
  shows "list_all P (particles s)"
  using assms(1)
proof (induction rule: reachable.induct)
  case (reach_init s0)
  show ?case by (rule init)
next
  case (reach_step s s')
  define R where "R = (\<lambda>(p::particle) (p'::particle). P p \<longrightarrow> P p')"
  have b: "\<And>p k p' k'. stepParticle c (stepGlobals c (time s)) (rnd s) p k = Some (p', k') \<Longrightarrow> R p p'"
    unfolding R_def using body by blast
  have "\<exists>s1. releasePhase c s = Some s1 \<and> list_all2 R (particles s1) (particles s')"
    by (rule step_particle_rel [OF reach_step.hyps(3)]) (rule b)
  then obtain s1 where s1: "releasePhase c s = Some s1" "list_all2 R (particles s1) (particles s')"
    by blast
  have "map P (particles s1) = map P (particles s)"
    by (rule releasePhase_map [OF _ s1(1)]) (rule rel)
  then have "list_all P (particles s1)"
    using reach_step.IH list_all_map_eq by blast
  then show ?case using s1(2) unfolding R_def by (rule list_all2_preserve [rotated])
next
  case (reach_stats s)
  then show ?case by simp
next
  case (reach_flags s b1 b2)
  then show ?case by simp
qed

lemma reachable_bounded:
  assumes "reachable c s"
  shows "list_all (fractionsBounded c) (particles s)"
proof (rule reachable_preserved [OF assms])
  fix s0
  have "0 \<le> volatileFrac (oilProps c)"
    using OIL_PROPERTIES_pos(2) [of "oilType c"] by (simp add: oilProps_def)
  then show "list_all (fractionsBounded c) (particles (initialize c s0))"
    using initialize_particle [of _ c s0] by (auto simp: list_all_iff fractionsBounded_def)
next
  show "\<And>p la lo. fractionsBounded c (p\<lparr>lat := la, lng := lo, active := True, age := 0\<rparr>)
      = fractionsBounded c p"
    by (simp add: fractionsBounded_def)
next
  show "\<And>t r p k p' k'. stepParticle c (stepGlobals c t) r p k = Some (p', k')
      \<Longrightarrow> fractionsBounded c p \<Longrightarrow> fractionsBounded c p'"
    by (rule stepParticle_bounded)
qed

lemma reachable_evaporated_nonneg:
  assumes "reachable c s" "0 \<le> 1 + 0.045 * (waterTemp c - 15)"
    "useGridData c \<and> hasGridData c \<or> - 1000 / 11 \<le> windSpeed c"
  shows "list_all (\<lambda>p. 0 \<le> evaporated p) (particles s)"
proof (rule reachable_preserved [OF assms(1)])
  fix s0
  show "list_all (\<lambda>p. 0 \<le> evaporated p) (particles (initialize c s0))"
    using initialize_particle [of _ c s0] by (auto simp: list_all_iff)
next
  show "\<And>p la lo. (0 \<le> evaporated (p\<lparr>lat := la, lng := lo, active := True, age := 0\<rparr>))
      = (0 \<le> evaporated p)"
    by simp
next
  show "\<And>t r p k p' k'. stepParticle c (stepGlobals c t) r p k = Some (p', k')
      \<Longrightarrow> 0 \<le> evaporated p \<Longrightarrow> 0 \<le> evaporated p'"
    by (rule stepParticle_evaporated_nonneg [OF assms(2,3)])
qed

subsection \<open>Statistics with no active particle\<close>

lemma count_map_eq:
  assumes "map f xs = map f ys"
  shows "length (filter f xs) = length (filter f ys)"
  using assms
proof (induction xs arbitrary: ys)
  case Nil
  then show ?case by simp
next
  case (Cons x xs)
  then obtain y ys' where ys: "ys = y # ys'" "f x = f y" "map f xs = map f ys'"
    by (cases ys) auto
  show ?case unfolding ys(1) using Cons.IH [OF ys(3)] ys(2) by simp
qed

lemma count_all2_mono:
  assumes "list_all2 (\<lambda>x y. P x \<longrightarrow> P y) xs ys"
  shows "length (filter P xs) \<le> length (filter P ys)"
  using assms by (induction rule: list_all2_induct) auto

lemma step_beached_count:
  assumes "step c s = Some s'"
  shows "length (filter beached (particles s)) \<le> length (filter beached (particles s'))"
proof -
  define R where "R = (\<lambda>(p::particle) (p'::particle). beached p \<longrightarrow> beached p')"
  have body: "\<And>p k p' k'. stepParticle c (stepGlobals c (time s)) (rnd s) p k = Some (p', k') \<Longrightarrow> R p p'"
    unfolding R_def using stepParticle_beached_mono by blast
  have "\<exists>s1. releasePhase c s = Some s1 \<and> list_all2 R (particles s1) (particles s')"
    by (rule step_particle_rel [OF assms]) (rule body)
  then obtain s1 where s1: "releasePhase c s = Some s1" "list_all2 R (particles s1) (particles s')"
    by blast
  have "map beached (particles s1) = map beached (particles s)"
    by (rule releasePhase_map [OF _ s1(1)]) simp
  then have "length (filter beached (particles s1)) = length (filter beached (particles s))"
    by (rule count_map_eq)
  moreover have "length (filter beached (particles s1)) \<le> length (filter beached (particles s'))"
    using s1(2) unfolding R_def by (rule count_all2_mono)
  ultimately show ?thesis by simp
qed

lemma updateStats_beached:
  "s_beached (stats (updateStats c s)) =
     (if filter active (particles s) = [] \<and> filter beached (particles s) = []
      then s_beached (stats s) else length (filter beached (particles s)))"
  by (simp add: updateStats_def Let_def fullStats_def)

lemma reachable_beached_count:
  assumes "reachable c s"
  shows "s_beached (stats s) \<le> length (filter beached (particles s))"
  using assms
proof (induction rule: reachable.induct)
  case (reach_init s0)
  show ?case by (simp add: initStats_def)
next
  case (reach_step s s')
  show ?case
    using step_beached_count [OF reach_step.hyps(3)] step_fields(2) [OF reach_step.hyps(3)]
      reach_step.IH by simp
next
  case (reach_stats s)
  then show ?case by (auto simp: updateStats_beached)
next
  case (reach_flags s b1 b2)
  then show ?case by simp
qed

text \<open>
  Claim C8. In every state of a run with no active particle, \<open>_updateStats\<close> changes the
  statistics in the beached count only, which ends equal to the number of beached particles;
  \<open>centerLat\<close>, \<open>centerLng\<close>, \<open>area\<close>, \<open>maxDrift\<close> and every other field keep their values,
  and so does the rest of the state.
\<close>

theorem updateStats_no_active:
  assumes "reachable c s" "filter active (particles s) = []"
  shows "updateStats c s = s\<lparr>stats := (stats s)\<lparr>s_beached := length (filter beached (particles s))\<rparr>\<rparr>"
proof (cases "filter beached (particles s) = []")
  case True
  then have "s_beached (stats s) = 0" using reachable_beached_count [OF assms(1)] by simp
  then show ?thesis using True assms(2) by (simp add: updateStats_def Let_def)
next
  case False
  then show ?thesis using assms(2) by (simp add: updateStats_def Let_def)
qed

subsection \<open>Trajectory samples\<close>

lemma trajTimes_record:
  "trajTimes (recordTrajectory c s) =
     trajTimes s @ (if jsmod (time s) 3600 < timeStep c \<and> filter active (particles s) \<noteq> []
                    then [time s] else [])"
  by (simp add: trajTimes_def recordTrajectory_def Let_def)

lemma step_trajTimes:
  assumes "step c s = Some s'"
  shows "trajTimes s' =
     trajTimes s @ (if jsmod (time s') 3600 < timeStep c \<and> filter active (particles s') \<noteq> []
                    then [time s'] else [])"
proof -
  from assms obtain s1 ps k where
    a: "releasePhase c s = Some s1"
    and c: "s' = recordTrajectory c (s1\<lparr>particles := ps, rpos := k, time := time s1 + timeStep c\<rparr>)"
    by (rule stepE)
  have "trajectory s1 = trajectory s" using releasePhase_frame [OF a] by simp
  then show ?thesis unfolding c trajTimes_record by (simp add: trajTimes_def)
qed

lemma jsmod_nonneg:
  assumes "0 \<le> x"
  shows "jsmod x 3600 = x - 3600 * of_int \<lfloor>x / 3600\<rfloor>"
  using assms by (simp add: jsmod_def)

lemma sample_spacing:
  assumes "0 < dt" "a = real n * dt" "b = real m * dt" "a < b"
    "jsmod a 3600 < dt" "jsmod b 3600 < dt"
  shows "dt \<le> b - a \<and> 3600 - dt < b - a"
proof -
  have a0: "0 \<le> a" using assms(1,2) by simp
  have b0: "0 \<le> b" using assms(1,3) by simp
  have "n < m"
  proof (rule ccontr)
    assume "\<not> n < m"
    then have "real m \<le> real n" by simp
    then have "real m * dt \<le> real n * dt" using assms(1) by (simp add: mult_right_mono)
    then show False using assms(2,3,4) by simp
  qed
  then have "real n + 1 \<le> real m" by simp
  then have "(real n + 1) * dt \<le> real m * dt" using assms(1) by (simp add: mult_right_mono)
  then have gap: "dt \<le> b - a" unfolding assms(2,3) by (simp add: algebra_simps)
  define qa where "qa = \<lfloor>a / 3600\<rfloor>"
  define qb where "qb = \<lfloor>b / 3600\<rfloor>"
  have ra: "a - 3600 * of_int qa < dt" using assms(5) jsmod_nonneg [OF a0] by (simp add: qa_def)
  have rb: "b - 3600 * of_int qb < dt" using assms(6) jsmod_nonneg [OF b0] by (simp add: qb_def)
  have ra0: "0 \<le> a - 3600 * of_int qa"
  proof -
    have "of_int qa \<le> a / 3600" unfolding qa_def by (rule of_int_floor_le)
    then show ?thesis by simp
  qed
  have rb0: "0 \<le> b - 3600 * of_int qb"
  proof -
    have "of_int qb \<le> b / 3600" unfolding qb_def by (rule of_int_floor_le)
    then show ?thesis by simp
  qed
  have "qa \<le> qb" unfolding qa_def qb_def using assms(4) by (intro floor_mono) simp
  moreover have "qa \<noteq> qb"
  proof
    assume "qa = qb"
    then have "b - a < dt" using ra0 rb by simp
    then show False using gap by simp
  qed
  ultimately have "qa + 1 \<le> qb" by simp
  then have "real_of_int qa + 1 \<le> real_of_int qb" by linarith
  then have "3600 - dt < b - a" using ra rb0 by linarith
  with gap show ?thesis by simp
qed

lemma reachable_trajectoryInv:
  assumes "reachable c s" "0 < timeStep c"
  shows "trajectoryInv c s"
  using assms(1)
proof (induction rule: reachable.induct)
  case (reach_init s0)
  have "time (initialize c s0) = real 0 * timeStep c" by simp
  then show ?case unfolding trajectoryInv_def trajTimes_def by (metis initialize_fields(2) list.simps(8) sorted_wrt.simps(1) empty_iff list.set(1))
next
  case (reach_step s s')
  from reach_step.IH obtain m where m: "time s = real m * timeStep c"
    and srt: "sorted_wrt (<) (trajTimes s)"
    and old: "\<forall>t \<in> set (trajTimes s). t \<le> time s \<and> jsmod t 3600 < timeStep c \<and> (\<exists>n::nat. t = real n * timeStep c)"
    unfolding trajectoryInv_def by blast
  have tm: "time s' = time s + timeStep c" using step_fields(1) [OF reach_step.hyps(3)] .
  have m': "time s' = real (Suc m) * timeStep c" unfolding tm m by (simp add: algebra_simps)
  have lt: "\<forall>t \<in> set (trajTimes s). t < time s'" using old assms(2) tm by fastforce
  show ?case
  proof (cases "jsmod (time s') 3600 < timeStep c \<and> filter active (particles s') \<noteq> []")
    case True
    then have tt: "trajTimes s' = trajTimes s @ [time s']"
      using step_trajTimes [OF reach_step.hyps(3)] by simp
    have "sorted_wrt (<) (trajTimes s')"
      unfolding tt using srt lt by (simp add: sorted_wrt_append)
    moreover have "\<forall>t \<in> set (trajTimes s'). t \<le> time s' \<and> jsmod t 3600 < timeStep c \<and> (\<exists>n::nat. t = real n * timeStep c)"
    proof
      fix t assume "t \<in> set (trajTimes s')"
      then consider "t \<in> set (trajTimes s)" | "t = time s'" unfolding tt by auto
      then show "t \<le> time s' \<and> jsmod t 3600 < timeStep c \<and> (\<exists>n::nat. t = real n * timeStep c)"
      proof cases
        case 1
        then show ?thesis using old lt by (auto simp: less_imp_le)
      next
        case 2
        have "\<exists>n::nat. t = real n * timeStep c" unfolding 2 using m' by blast
        then show ?thesis using True 2 by simp
      qed
    qed
    moreover have "\<exists>k::nat. time s' = real k * timeStep c" using m' by blast
    ultimately show ?thesis unfolding trajectoryInv_def by blast
  next
    case False
    then have tt: "trajTimes s' = trajTimes s"
      using step_trajTimes [OF reach_step.hyps(3)] by auto
    have "\<forall>t \<in> set (trajTimes s'). t \<le> time s' \<and> jsmod t 3600 < timeStep c \<and> (\<exists>n::nat. t = real n * timeStep c)"
      unfolding tt using old lt by (auto simp: less_imp_le)
    moreover have "\<exists>k::nat. time s' = real k * timeStep c" using m' by blast
    moreover have "sorted_wrt (<) (trajTimes s')" using srt tt by simp
    ultimately show ?thesis unfolding trajectoryInv_def by blast
  qed
next
  case (reach_stats s)
  then show ?case by (simp add: trajectoryInv_def trajTimes_def)
next
  case (reach_flags s b1 b2)
  then show ?case by (simp add: trajectoryInv_def trajTimes_def)
qed

lemma trajectory_spacing:
  assumes "reachable c s" "0 < timeStep c" "Suc i < length (trajTimes s)"
  shows "trajTimes s ! i < trajTimes s ! Suc i
    \<and> timeStep c \<le> trajTimes s ! Suc i - trajTimes s ! i
    \<and> 3600 - timeStep c < trajTimes s ! Suc i - trajTimes s ! i
    \<and> jsmod (trajTimes s ! i) 3600 < timeStep c
    \<and> jsmod (trajTimes s ! Suc i) 3600 < timeStep c"
proof -
  have inv: "trajectoryInv c s" by (rule reachable_trajectoryInv [OF assms(1,2)])
  have lt: "trajTimes s ! i < trajTimes s ! Suc i"
    using inv assms(3) unfolding trajectoryInv_def by (simp add: sorted_wrt_nth_less)
  have ia: "trajTimes s ! i \<in> set (trajTimes s)" using assms(3) by simp
  have ib: "trajTimes s ! Suc i \<in> set (trajTimes s)" using assms(3) by simp
  from inv ia obtain n where a: "jsmod (trajTimes s ! i) 3600 < timeStep c" "trajTimes s ! i = real n * timeStep c"
    unfolding trajectoryInv_def by blast
  from inv ib obtain m where b: "jsmod (trajTimes s ! Suc i) 3600 < timeStep c" "trajTimes s ! Suc i = real m * timeStep c"
    unfolding trajectoryInv_def by blast
  show ?thesis using sample_spacing [OF assms(2) a(2) b(2) lt a(1) b(1)] lt a(1) b(1) by simp
qed

subsection \<open>Steps on the example stream\<close>

lemma gaussRandom_ex_rnd:
  assumes "even k" "2 \<le> k"
  shows "gaussRandom ex_rnd k = Some (0, k + 2)"
proof -
  have a: "ex_rnd k = 1 / 2" using assms by (auto simp: ex_rnd_def)
  have b: "ex_rnd (Suc k) = 3 / 4" using assms by (auto simp: ex_rnd_def)
  have "gaussRandom ex_rnd k = Some ((ex_rnd k * 2 - 1) * sqrt (- 2 * ln (1 / 4) / (1 / 4)), k + 2)"
    by (rule gaussRandom_accept [where v = "ex_rnd (k + 1) * 2 - 1"]) (simp_all add: a b)
  then show ?thesis by (simp add: a)
qed

lemma cos_deg_nonzero:
  assumes "- 90 < x" "x < 90"
  shows "cos (x * DEG_TO_RAD) \<noteq> 0"
proof -
  have e: "x * DEG_TO_RAD = (x / 90) * (pi / 2)" by (simp add: DEG_TO_RAD_def)
  have h: "0 < pi / 2" using pi_gt_zero by simp
  have "(- 1) * (pi / 2) < (x / 90) * (pi / 2)"
    using assms(1) h by (intro mult_strict_right_mono) simp_all
  then have "- (pi / 2) < x * DEG_TO_RAD" unfolding e by simp
  moreover have "(x / 90) * (pi / 2) < 1 * (pi / 2)"
    using assms(2) h by (intro mult_strict_right_mono) simp_all
  then have "x * DEG_TO_RAD < pi / 2" unfolding e by simp
  ultimately have "0 < cos (x * DEG_TO_RAD)" by (rule cos_gt_zero_pi)
  then show ?thesis by simp
qed

lemma crude_remains:
  assumes "oilType c = crude"
  shows "\<not> 1 - evaporated (weatherParticle c e p) - dispersed (weatherParticle c e p) < 0.05"
proof -
  have "evaporated (weatherParticle c e p) \<le> 0.25" using assms by (simp add: oilProps_def)
  moreover have "dispersed (weatherParticle c e p) \<le> 0.3" by simp
  ultimately show ?thesis by (simp add: not_less)
qed

lemma stepParticle_drifts:
  assumes "active p"
    "\<not> 1 - evaporated (weatherParticle c e p) - dispersed (weatherParticle c e p) < 0.05"
    "gaussRandom r k = Some (g1, k1)" "gaussRandom r k1 = Some (g2, k2)"
  shows "stepParticle c e r p k =
     Some (displace c (spreadParticle c (weatherParticle c e p))
              (fst (displacement c e (spreadParticle c (weatherParticle c e p)) g1 g2))
              (snd (displacement c e (spreadParticle c (weatherParticle c e p)) g1 g2)), k2)"
  using assms by (simp add: stepParticle_def driftParticle_def Let_def)

lemma releasePhase_instant: "spillMode c = instant \<Longrightarrow> releasePhase c s = Some s"
  by (simp add: releasePhase_def)

lemma onLand_no_mask: "landMask c = None \<Longrightarrow> onLand c la lo = False"
  by (simp add: onLand_def)

text \<open>One step of a run with a single particle of crude oil under \<open>ex_rnd\<close>, instant mode,
  no land mask.\<close>

lemma step_single:
  assumes "spillMode c = instant" "oilType c = crude" "landMask c = None"
    "particles s = [p]" "active p" "rnd s = ex_rnd" "even (rpos s)" "2 \<le> rpos s"
  shows "\<exists>p'. step c s = Some (recordTrajectory c
            (s\<lparr>particles := [p'], rpos := rpos s + 4, time := time s + timeStep c\<rparr>))
      \<and> active p' \<and> \<not> beached p' = (\<not> beached p)
      \<and> age p' = age p + timeStep c
      \<and> evaporated p' = min (evapFraction (stepGlobals c (time s))) 0.25
      \<and> \<not> 1 - evaporated p' - dispersed p' < 0.05
      \<and> thickness p' = (if 0 < (age p + timeStep c) / 3600
                          then 0.01 * ((age p + timeStep c) / 3600) powr (- 0.33) else thickness p)"
proof -
  define e where "e = stepGlobals c (time s)"
  define q where "q = spreadParticle c (weatherParticle c e p)"
  define p' where "p' = displace c q (fst (displacement c e q 0 0)) (snd (displacement c e q 0 0))"
  have g1: "gaussRandom ex_rnd (rpos s) = Some (0, rpos s + 2)"
    by (rule gaussRandom_ex_rnd [OF assms(7,8)])
  have g2: "gaussRandom ex_rnd (rpos s + 2) = Some (0, rpos s + 2 + 2)"
    by (rule gaussRandom_ex_rnd) (use assms(7,8) in simp_all)
  have e4: "rpos s + 2 + 2 = rpos s + 4" by simp
  have sp: "stepParticle c e ex_rnd p (rpos s) = Some (p', rpos s + 4)"
    unfolding p'_def q_def e4 [symmetric]
    by (rule stepParticle_drifts [OF assms(5) crude_remains [OF assms(2)] g1 g2])
  have "step c s = Some (recordTrajectory c
            (s\<lparr>particles := [p'], rpos := rpos s + 4, time := time s + timeStep c\<rparr>))"
    by (simp add: step_def releasePhase_instant [OF assms(1)] assms(4,6) e_def [symmetric] sp)
  moreover have "active p'" "\<not> beached p' = (\<not> beached p)"
    unfolding p'_def q_def using assms(5) by (simp_all add: displace_flags onLand_no_mask [OF assms(3)])
  moreover have "age p' = age p + timeStep c"
    "evaporated p' = min (evapFraction (stepGlobals c (time s))) 0.25"
    unfolding p'_def q_def e_def using assms(2) by (simp_all add: oilProps_def)
  moreover have "\<not> 1 - evaporated p' - dispersed p' < 0.05"
    unfolding p'_def q_def using crude_remains [OF assms(2), of e p] by simp
  moreover have "thickness p' = (if 0 < (age p + timeStep c) / 3600
                          then 0.01 * ((age p + timeStep c) / 3600) powr (- 0.33) else thickness p)"
    unfolding p'_def q_def by (simp add: spreadParticle_thickness)
  ultimately show ?thesis by blast
qed

lemma initialize_single:
  assumes "spillMode c = instant" "particleCount c = 1"
  shows "particles (initialize c s) = [initialParticle c (rnd s) (rpos s) 0]"
    "rpos (initialize c s) = rpos s + 2"
  using assms by (simp_all add: initialize_def)

lemma initialParticle_fields [simp]:
  "active (initialParticle c r k i)" "\<not> beached (initialParticle c r k i)"
  "age (initialParticle c r k i) = 0" "evaporated (initialParticle c r k i) = 0"
  by (simp_all add: initialParticle_def OilParticle_def Let_def split: prod.splits)

subsection \<open>A step returns when the rejection loop accepts\<close>




lemma releaseOne_rpos [simp]: "rpos (releaseOne c s) = rpos s + 2"
  by (simp add: releaseOne_def Let_def split: prod.splits)





lemma OilSpillSimulation_fields [simp]:
  "rnd (OilSpillSimulation r) = r" "rpos (OilSpillSimulation r) = 0"
  "particles (OilSpillSimulation r) = []" "time (OilSpillSimulation r) = 0"
  by (simp_all add: OilSpillSimulation_def)

lemma start_states:
  "particles (initialize c (OilSpillSimulation r)) =
     (if spillMode c = continuous
      then replicate (particleCount c)
             ((OilParticle (Some (spillLat c)) (Some (spillLng c)) (massPerParticle c))
                \<lparr>p_viscosity := viscosity (oilProps c), active := False\<rparr>)
      else map (initialParticle c r 0) [0..<particleCount c])"
  "rpos (initialize c (OilSpillSimulation r)) =
     (if spillMode c = continuous then 0 else 2 * particleCount c)"
  "rnd (initialize c (OilSpillSimulation r)) = r"
  by (simp_all add: initialize_def)

text \<open>Two steps of a single-particle run in instant mode.\<close>

lemma two_steps_single:
  assumes "spillMode c = instant" "oilType c = crude" "landMask c = None" "particleCount c = 1"
  defines "s0 \<equiv> initialize c (OilSpillSimulation ex_rnd)"
  shows "\<exists>s1 s2 p1 p2. step c s0 = Some s1 \<and> step c s1 = Some s2
    \<and> particles s1 = [p1] \<and> particles s2 = [p2] \<and> active p1 \<and> active p2
    \<and> time s1 = timeStep c \<and> time s2 = timeStep c + timeStep c
    \<and> age p1 = timeStep c
    \<and> \<not> 1 - evaporated p1 - dispersed p1 < 0.05
    \<and> thickness p1 = (if 0 < timeStep c / 3600 then 0.01 * (timeStep c / 3600) powr (- 0.33) else 0.01)
    \<and> evaporated p2 = min (evapFraction (stepGlobals c (timeStep c))) 0.25
    \<and> trajTimes s2 =
        (if jsmod (timeStep c) 3600 < timeStep c then [timeStep c] else []) @
        (if jsmod (timeStep c + timeStep c) 3600 < timeStep c then [timeStep c + timeStep c] else [])"
proof -
  define p0 where "p0 = initialParticle c ex_rnd 0 0"
  have s0: "particles s0 = [p0]" "rnd s0 = ex_rnd" "rpos s0 = 2" "time s0 = 0" "trajectory s0 = []"
    unfolding s0_def p0_def using assms(1,4) by (simp_all add: start_states)
  have ap0: "active p0" "age p0 = 0" "thickness p0 = 0.01"
    unfolding p0_def by (simp_all add: initialParticle_def OilParticle_def Let_def split: prod.splits)
  obtain p1 where p1: "step c s0 = Some (recordTrajectory c
            (s0\<lparr>particles := [p1], rpos := rpos s0 + 4, time := time s0 + timeStep c\<rparr>))"
      "active p1" "age p1 = age p0 + timeStep c"
      "\<not> 1 - evaporated p1 - dispersed p1 < 0.05"
      "thickness p1 = (if 0 < (age p0 + timeStep c) / 3600
                          then 0.01 * ((age p0 + timeStep c) / 3600) powr (- 0.33) else thickness p0)"
    using step_single [OF assms(1,2,3) s0(1) ap0(1) s0(2)] s0(3) by auto
  define s1 where "s1 = recordTrajectory c (s0\<lparr>particles := [p1], rpos := rpos s0 + 4, time := time s0 + timeStep c\<rparr>)"
  have s1: "particles s1 = [p1]" "rnd s1 = ex_rnd" "rpos s1 = 6" "time s1 = timeStep c"
    unfolding s1_def using s0 by simp_all
  have t1: "trajTimes s1 = (if jsmod (timeStep c) 3600 < timeStep c then [timeStep c] else [])"
    unfolding s1_def trajTimes_record using s0 p1(2) by (simp add: trajTimes_def)
  obtain p2 where p2: "step c s1 = Some (recordTrajectory c
            (s1\<lparr>particles := [p2], rpos := rpos s1 + 4, time := time s1 + timeStep c\<rparr>))"
      "active p2" "evaporated p2 = min (evapFraction (stepGlobals c (time s1))) 0.25"
    using step_single [OF assms(1,2,3) s1(1) p1(2) s1(2)] s1(3) by auto
  define s2 where "s2 = recordTrajectory c (s1\<lparr>particles := [p2], rpos := rpos s1 + 4, time := time s1 + timeStep c\<rparr>)"
  have s2: "particles s2 = [p2]" "time s2 = timeStep c + timeStep c"
    unfolding s2_def using s1 by simp_all
  have t2: "trajTimes s2 = trajTimes s1 @
        (if jsmod (timeStep c + timeStep c) 3600 < timeStep c then [timeStep c + timeStep c] else [])"
    unfolding s2_def trajTimes_record using s1 p2(2) by (simp add: trajTimes_def)
  show ?thesis
    using p1(1) [folded s1_def] p2(1) [folded s2_def] s1(1,4) s2 p1(2) p2(2) p1(3,4,5) p2(3) t1 t2 ap0
    by auto
qed

lemma example_fields [simp]:
  "spillMode calm = instant" "oilType calm = crude" "landMask calm = None" "particleCount calm = 1"
  "timeStep calm = 600" "maxTime calm = 172800" "windSpeed calm = 0" "currentSpeed calm = 0"
  "waterTemp calm = 18" "spillLat calm = 38.5" "spillLng calm = 119"
  "windGrid calm = None" "currentGrid calm = None" "tempGrid calm = None" "useGridData calm"
  by (simp_all add: calm_def defaultConfig_def)

lemma steps_two:
  assumes "step c s = Some s1" "step c s1 = Some s2"
  shows "steps c 2 s = Some s2"
  using assms by (simp add: numeral_2_eq_2)

subsection \<open>Fay thickness: examples\<close>

lemma step_single_drifted:
  assumes "spillMode c = instant" "particles s = [p]" "active p" "rnd s = ex_rnd"
    "even (rpos s)" "2 \<le> rpos s"
    "\<not> 1 - evaporated (weatherParticle c (stepGlobals c (time s)) p)
        - dispersed (weatherParticle c (stepGlobals c (time s)) p) < 0.05"
  defines "q \<equiv> spreadParticle c (weatherParticle c (stepGlobals c (time s)) p)"
  shows "step c s = Some (recordTrajectory c
      (s\<lparr>particles := [displace c q (fst (displacement c (stepGlobals c (time s)) q 0 0))
                                    (snd (displacement c (stepGlobals c (time s)) q 0 0))],
         rpos := rpos s + 4, time := time s + timeStep c\<rparr>))"
proof -
  have g1: "gaussRandom ex_rnd (rpos s) = Some (0, rpos s + 2)"
    by (rule gaussRandom_ex_rnd [OF assms(5,6)])
  have g2: "gaussRandom ex_rnd (rpos s + 2) = Some (0, rpos s + 2 + 2)"
    by (rule gaussRandom_ex_rnd) (use assms(5,6) in simp_all)
  have e4: "rpos s + 2 + 2 = rpos s + 4" by simp
  have sp: "stepParticle c (stepGlobals c (time s)) ex_rnd p (rpos s) =
      Some (displace c q (fst (displacement c (stepGlobals c (time s)) q 0 0))
                         (snd (displacement c (stepGlobals c (time s)) q 0 0)), rpos s + 4)"
    unfolding q_def e4 [symmetric]
    by (rule stepParticle_drifts [OF assms(3,7) g1 g2])
  show ?thesis
    by (simp add: step_def releasePhase_instant [OF assms(1)] assms(2,4) sp)
qed

lemma step_single_weathered:
  assumes "spillMode c = instant" "particles s = [p]" "active p"
    "1 - evaporated (weatherParticle c (stepGlobals c (time s)) p)
       - dispersed (weatherParticle c (stepGlobals c (time s)) p) < 0.05"
  shows "step c s = Some (recordTrajectory c
      (s\<lparr>particles := [(weatherParticle c (stepGlobals c (time s)) p)\<lparr>active := False\<rparr>],
         rpos := rpos s, time := time s + timeStep c\<rparr>))"
proof -
  have sp: "stepParticle c (stepGlobals c (time s)) r p k =
      Some ((weatherParticle c (stepGlobals c (time s)) p)\<lparr>active := False\<rparr>, k)" for r k
    using assms(3,4) by (simp add: stepParticle_def Let_def)
  show ?thesis
    by (simp add: step_def releasePhase_instant [OF assms(1)] assms(2) sp)
qed

lemma volatile_fields [simp]:
  "spillMode volatile = instant" "oilType volatile = gasoline" "landMask volatile = None"
  "particleCount volatile = 1" "timeStep volatile = 3600000" "maxTime volatile = 7200000"
  "windSpeed volatile = 10" "waterTemp volatile = 18"
  "windGrid volatile = None" "currentGrid volatile = None" "tempGrid volatile = None"
  by (simp_all add: volatile_def defaultConfig_def)

lemma calcEvaporation_cap:
  assumes "0 < h" "volatileFrac P \<le> evapRate P * (1 + 0.045 * (T - 15)) * sqrt h * (1 + 0.01 * W)"
  shows "calcEvaporation P h T W = volatileFrac P"
  using assms by (simp add: calcEvaporation_def Let_def)

lemma volatile_weathering:
  "evapFraction (stepGlobals volatile 0) = 0" "dispersFraction (stepGlobals volatile 0) = 0"
  "evapFraction (stepGlobals volatile 3600000) = 0.8"
  "0.2 \<le> dispersFraction (stepGlobals volatile 3600000)"
proof -
  show "evapFraction (stepGlobals volatile 0) = 0" "dispersFraction (stepGlobals volatile 0) = 0"
    by (simp_all add: stepGlobals_weathering calcEvaporation_def calcDispersion_def)
  define w where "w = repWs (stepGlobals volatile 3600000)"
  have "w = 10 * (1 + sin (3600000 * 0.0002) * 0.1)"
    by (simp add: w_def stepGlobals_def Let_def hasGridData_def)
  then have "w = 10 + sin 720" by simp
  then have w9: "9 \<le> w" using sin_ge_minus_one [of "720::real"] by linarith
  have sq: "10 \<le> sqrt 1000" by (rule real_le_rsqrt) simp
  define z where "z = sqrt 1000 * (1 + 0.01 * w)"
  have "10 * 1 \<le> sqrt 1000 * (1 + 0.01 * w)"
    using sq w9 by (intro mult_mono) simp_all
  then have z: "10 \<le> z" by (simp add: z_def)
  have e: "evapRate (OIL_PROPERTIES gasoline) * (1 + 0.045 * (18 - 15)) * sqrt 1000 * (1 + 0.01 * w)
      = 0.1362 * z"
    by (simp add: z_def)
  have "volatileFrac (OIL_PROPERTIES gasoline) \<le> 0.1362 * z" using z by simp
  then have "calcEvaporation (OIL_PROPERTIES gasoline) 1000 18 w = volatileFrac (OIL_PROPERTIES gasoline)"
    unfolding e [symmetric] by (intro calcEvaporation_cap) simp_all
  then show "evapFraction (stepGlobals volatile 3600000) = 0.8"
    unfolding stepGlobals_weathering w_def [symmetric] by (simp add: oilProps_def)
  have "9\<^sup>2 \<le> w\<^sup>2" using w9 by (intro power_mono) simp_all
  then have "0.2 \<le> 0.0034 * 0.9 * (w ^ 2 * 0.001) * 1000" by simp
  then show "0.2 \<le> dispersFraction (stepGlobals volatile 3600000)"
    unfolding stepGlobals_weathering w_def [symmetric]
    using w9 by (simp add: calcDispersion_def Let_def oilProps_def)
qed

lemma volatile_steps:
  "\<exists>s1 s2 p1 p2. step volatile volatile_start = Some s1 \<and> step volatile s1 = Some s2
    \<and> releasePhase volatile s1 = Some s1
    \<and> particles s1 = [p1] \<and> particles s2 = [p2] \<and> active p1 \<and> \<not> active p2
    \<and> age p1 = 3600000 \<and> age p2 = 7200000
    \<and> thickness p1 = 0.01 * 1000 powr (- 0.33)
    \<and> 1 - evaporated p2 - dispersed p2 < 0.05"
proof -
  define p0 where "p0 = initialParticle volatile ex_rnd 0 0"
  define e0 where "e0 = stepGlobals volatile 0"
  have s0: "particles volatile_start = [p0]" "rnd volatile_start = ex_rnd"
    "rpos volatile_start = 2" "time volatile_start = 0"
    unfolding volatile_start_def p0_def by (simp_all add: start_states)
  have ap0: "active p0" "age p0 = 0" unfolding p0_def by simp_all
  define q where "q = spreadParticle volatile (weatherParticle volatile e0 p0)"
  define p1 where "p1 = displace volatile q (fst (displacement volatile e0 q 0 0))
                                            (snd (displacement volatile e0 q 0 0))"
  define s1 where "s1 = recordTrajectory volatile
      (volatile_start\<lparr>particles := [p1], rpos := rpos volatile_start + 4,
                      time := time volatile_start + timeStep volatile\<rparr>)"
  have st1: "step volatile volatile_start = Some s1"
    unfolding s1_def p1_def q_def e0_def
    using step_single_drifted [of volatile volatile_start p0] s0 ap0
    by (simp add: volatile_weathering oilProps_def)
  have p1: "active p1" "age p1 = 3600000" "thickness p1 = 0.01 * 1000 powr (- 0.33)"
    unfolding p1_def q_def using ap0
    by (simp_all add: displace_flags onLand_no_mask spreadParticle_thickness)
  have s1: "particles s1 = [p1]" "time s1 = 3600000" unfolding s1_def using s0 by simp_all
  define e1 where "e1 = stepGlobals volatile 3600000"
  define p2 where "p2 = (weatherParticle volatile e1 p1)\<lparr>active := False\<rparr>"
  have low: "1 - evaporated (weatherParticle volatile e1 p1)
       - dispersed (weatherParticle volatile e1 p1) < 0.05"
    unfolding e1_def using volatile_weathering(4)
    by (simp add: volatile_weathering(3) oilProps_def min_def)
  define s2 where "s2 = recordTrajectory volatile
      (s1\<lparr>particles := [p2], rpos := rpos s1, time := time s1 + timeStep volatile\<rparr>)"
  have st2: "step volatile s1 = Some s2"
    unfolding s2_def p2_def e1_def
    using step_single_weathered [of volatile s1 p1] s1 p1(1) low [unfolded e1_def] by simp
  have p2: "\<not> active p2" "age p2 = 7200000" "1 - evaporated p2 - dispersed p2 < 0.05"
    unfolding p2_def using low p1(2) by simp_all
  have s2: "particles s2 = [p2]" unfolding s2_def by simp
  have rp: "releasePhase volatile s1 = Some s1" by (simp add: releasePhase_instant)
  show ?thesis using st1 st2 s1(1) s2 p1 p2 rp by blast
qed

theorem fay_thickness_exponent_witness:
  "step calm calm_start \<noteq> None
   \<and> age (particles (the (step calm calm_start)) ! 0) = 600
   \<and> thickness (particles (the (step calm calm_start)) ! 0) =
       0.01 * (age (particles (the (step calm calm_start)) ! 0) / 3600) powr (- 0.33)
   \<and> steps volatile 2 volatile_start \<noteq> None
   \<and> active (particles (the (step volatile volatile_start)) ! 0)
   \<and> \<not> active (particles (the (steps volatile 2 volatile_start)) ! 0)
   \<and> age (particles (the (steps volatile 2 volatile_start)) ! 0) = 7200000
   \<and> thickness (particles (the (steps volatile 2 volatile_start)) ! 0) = 0.01 * 1000 powr (- 0.33)
   \<and> thickness (particles (the (steps volatile 2 volatile_start)) ! 0) \<noteq>
       0.01 * (age (particles (the (steps volatile 2 volatile_start)) ! 0) / 3600) powr (- 0.33)"
proof -
  obtain s1 p1 where a: "step calm calm_start = Some s1" "particles s1 = [p1]" "age p1 = 600"
      "\<not> 1 - evaporated p1 - dispersed p1 < 0.05"
    using two_steps_single [of calm] unfolding calm_start_def [symmetric]
    by auto
  have r: "releasePhase calm calm_start = Some calm_start" by (simp add: releasePhase_instant)
  have p0: "particles calm_start = [initialParticle calm ex_rnd 0 0]"
    by (simp add: calm_start_def start_states)
  have "\<not> 1 - evaporated (particles s1 ! 0) - dispersed (particles s1 ! 0) < 0.05
          \<and> 0 < age (particles s1 ! 0) \<longrightarrow>
        thickness (particles s1 ! 0) = 0.01 * (age (particles s1 ! 0) / 3600) powr (- 0.33)"
    using fay_thickness_exponent [OF a(1) r, of 0] p0 by simp
  then have one: "thickness p1 = 0.01 * (age p1 / 3600) powr (- 0.33)" using a by simp
  obtain v1 v2 q1 q2 where b: "step volatile volatile_start = Some v1" "step volatile v1 = Some v2"
      "releasePhase volatile v1 = Some v1" "particles v1 = [q1]" "particles v2 = [q2]"
      "active q1" "\<not> active q2" "age q2 = 7200000" "thickness q1 = 0.01 * 1000 powr (- 0.33)"
      "1 - evaporated q2 - dispersed q2 < 0.05"
    using volatile_steps by blast
  have "1 - evaporated (particles v2 ! 0) - dispersed (particles v2 ! 0) < 0.05 \<longrightarrow>
        \<not> active (particles v2 ! 0) \<and> thickness (particles v2 ! 0) = thickness (particles v1 ! 0)"
    using fay_thickness_exponent [OF b(2,3), of 0] b(4,6) by simp
  then have two: "thickness q2 = 0.01 * 1000 powr (- 0.33)" using b by simp
  have "(2000::real) powr (- 0.33) < 1000 powr (- 0.33)"
    by (rule powr_less_mono2_neg) simp_all
  then have three: "thickness q2 \<noteq> 0.01 * (age q2 / 3600) powr (- 0.33)"
    unfolding two b(8) by simp
  have st: "steps volatile 2 volatile_start = Some v2" by (rule steps_two [OF b(1,2)])
  show ?thesis using a one b st two three by simp
qed

theorem fay_thickness_not_one_third:
  "step calm calm_start \<noteq> None
   \<and> active (particles calm_start ! 0)
   \<and> age (particles (the (step calm calm_start)) ! 0) = 600
   \<and> thickness (particles (the (step calm calm_start)) ! 0) \<noteq>
       0.01 * (age (particles (the (step calm calm_start)) ! 0) / 3600) powr (- 1 / 3)"
proof -
  obtain s1 p1 where a: "step calm calm_start = Some s1" "particles s1 = [p1]" "age p1 = 600"
      "thickness p1 = 0.01 * (600 / 3600) powr (- 0.33)"
    using two_steps_single [of calm] unfolding calm_start_def [symmetric]
    by auto
  have p0: "particles calm_start = [initialParticle calm ex_rnd 0 0]"
    by (simp add: calm_start_def start_states)
  have "(1 / 6 :: real) powr (- 0.33) \<noteq> (1 / 6) powr (- 1 / 3)"
    by (subst powr_inj) simp_all
  then have "thickness p1 \<noteq> 0.01 * (age p1 / 3600) powr (- 1 / 3)"
    unfolding a(3,4) by simp
  then show ?thesis using a p0 by simp
qed




subsection \<open>The driver reaches the horizon\<close>



lemma updateStats_flags [simp]:
  "isRunning (updateStats c s) = isRunning s" "isPaused (updateStats c s) = isPaused s"
  by (simp_all add: updateStats_def Let_def)




subsection \<open>Release schedule of a run\<close>


lemma leak_fields [simp]:
  "spillMode leak = continuous" "spillDuration leak = 1 / 6" "maxTime leak = 600"
  "timeStep leak = 600" "particleCount leak = 1"
  by (simp_all add: leak_def calm_def defaultConfig_def)


lemma zero_leak_fields [simp]:
  "spillMode zero_leak = continuous" "spillDuration zero_leak = 0" "maxTime zero_leak = 0"
  "timeStep zero_leak = 600" "particleCount zero_leak = 1" "playbackSpeed zero_leak = 2"
  by (simp_all add: zero_leak_def leak_def calm_def defaultConfig_def)


subsection \<open>The flag useGridData with no grid loaded\<close>

lemma run_flag:
  assumes "\<not> hasGridData c"
  shows "run (c\<lparr>useGridData := b\<rparr>) n s = run c n s"
  by (induction n arbitrary: s) (simp_all add: tick_flag [OF assms] split: option.splits)

lemma steps_flag:
  assumes "\<not> hasGridData c"
  shows "steps (c\<lparr>useGridData := b\<rparr>) n s = steps c n s"
  by (induction n arbitrary: s) (simp_all add: step_flag [OF assms] split: option.splits)

text \<open>
  Claim C5. With no grid loaded (wind, current, temperature and land mask all null), the
  configuration with \<open>useGridData = true\<close> and the same configuration with
  \<open>useGridData = false\<close> give the same state, from the same state and random stream, after
  \<open>initialize\<close>, after every step, after every statistics update, after any number of steps
  and after any number of ticks from \<open>start\<close>: particles, trajectory, statistics, time and
  the position in the random stream are equal.
\<close>

theorem no_grids_flag_irrelevant:
  assumes "windGrid c = None" "currentGrid c = None" "tempGrid c = None" "landMask c = None"
  shows "initialize (c\<lparr>useGridData := True\<rparr>) s = initialize (c\<lparr>useGridData := False\<rparr>) s
    \<and> step (c\<lparr>useGridData := True\<rparr>) s = step (c\<lparr>useGridData := False\<rparr>) s
    \<and> updateStats (c\<lparr>useGridData := True\<rparr>) s = updateStats (c\<lparr>useGridData := False\<rparr>) s
    \<and> steps (c\<lparr>useGridData := True\<rparr>) n s = steps (c\<lparr>useGridData := False\<rparr>) n s
    \<and> run (c\<lparr>useGridData := True\<rparr>) n (start (c\<lparr>useGridData := True\<rparr>) s) =
        run (c\<lparr>useGridData := False\<rparr>) n (start (c\<lparr>useGridData := False\<rparr>) s)"
proof -
  have h: "\<not> hasGridData c" using assms by (simp add: hasGridData_def)
  have st: "step (c\<lparr>useGridData := b\<rparr>) s' = step c s'" for b s'
    by (rule step_flag [OF h])
  show ?thesis
    by (simp add: initialize_flag st updateStats_flag steps_flag [OF h] run_flag [OF h] start_flag)
qed

theorem no_grids_flag_irrelevant_witness:
  "step (calm\<lparr>useGridData := True\<rparr>) calm_start = step (calm\<lparr>useGridData := False\<rparr>) calm_start
   \<and> run (calm\<lparr>useGridData := True\<rparr>) 3 (start (calm\<lparr>useGridData := True\<rparr>) (OilSpillSimulation ex_rnd)) =
      run (calm\<lparr>useGridData := False\<rparr>) 3 (start (calm\<lparr>useGridData := False\<rparr>) (OilSpillSimulation ex_rnd))
   \<and> windGrid calm = None \<and> currentGrid calm = None \<and> tempGrid calm = None \<and> landMask calm = None"
  using no_grids_flag_irrelevant [of calm calm_start 3]
    no_grids_flag_irrelevant [of calm "OilSpillSimulation ex_rnd" 3]
  by simp

subsection \<open>Weathering fractions of a run\<close>

text \<open>
  Claim C6, as amended. In every state of a run, whatever the configuration, every particle
  has \<open>evaporated \<le> volatileFrac\<close>, \<open>0 \<le> dispersed \<le> 0.3\<close> and \<open>0 \<le> emulsionWater \<le> 0.7\<close>. If
  moreover \<open>1 + 0.045 * (waterTemp - 15) \<ge> 0\<close> (water not colder than about -7.2 degrees) and
  either the steps run in grid mode (\<open>useGridData\<close> with a wind, current or temperature grid
  loaded) or \<open>windSpeed \<ge> -1000/11\<close> (about -90.9 m/s, so every wind speed that is not
  negative), every particle has \<open>0 \<le> evaporated\<close>. The evaporation formula has no lower clamp:
  \<open>evaporated\<close> is negative after two hourly steps in water at -10 degrees, and in a wind of
  -200 m/s.
\<close>

theorem weathering_fractions_in_range:
  assumes "reachable c s" "p \<in> set (particles s)"
  shows "evaporated p \<le> volatileFrac (oilProps c)
    \<and> 0 \<le> dispersed p \<and> dispersed p \<le> 0.3
    \<and> 0 \<le> emulsionWater p \<and> emulsionWater p \<le> 0.7
    \<and> (0 \<le> 1 + 0.045 * (waterTemp c - 15)
         \<and> (useGridData c \<and> hasGridData c \<or> - 1000 / 11 \<le> windSpeed c)
       \<longrightarrow> 0 \<le> evaporated p)"
  using reachable_bounded [OF assms(1)] reachable_evaporated_nonneg [OF assms(1)] assms(2)
  by (simp add: list_all_iff fractionsBounded_def)

subsection \<open>Weathering fractions: examples\<close>

lemma hourly_fields [simp]:
  "spillMode hourly = instant" "oilType hourly = crude" "landMask hourly = None"
  "particleCount hourly = 1" "timeStep hourly = 3600" "maxTime hourly = 172800"
  "windSpeed hourly = 0" "waterTemp hourly = 18"
  by (simp_all add: hourly_def calm_def defaultConfig_def)

lemma cold_fields [simp]:
  "spillMode cold = instant" "oilType cold = crude" "landMask cold = None"
  "particleCount cold = 1" "timeStep cold = 3600" "maxTime cold = 172800"
  "windSpeed cold = 0" "waterTemp cold = - 10" "useGridData cold" "windGrid cold = None"
  "currentGrid cold = None" "tempGrid cold = None"
  by (simp_all add: cold_def hourly_def calm_def defaultConfig_def)

lemma coarse_fields [simp]:
  "spillMode coarse = instant" "oilType coarse = crude" "landMask coarse = None"
  "particleCount coarse = 1" "timeStep coarse = 10800" "maxTime coarse = 172800"
  by (simp_all add: coarse_def calm_def defaultConfig_def)

lemma reachable_two_steps:
  assumes "step c (initialize c s0) = Some s1" "step c s1 = Some s2"
    "0 < maxTime c" "time s1 < maxTime c"
  shows "reachable c s1" "reachable c s2"
proof -
  have "reachable c (initialize c s0)" by (rule reach_init)
  then show "reachable c s1" by (rule reach_step) (use assms in simp_all)
  then show "reachable c s2" by (rule reach_step) (use assms in simp_all)
qed

lemma calcEvaporation_neg:
  assumes "0 < h" "0 < evapRate P * (1 + 0.045 * (T - 15))" "1 + 0.01 * W < 0"
  shows "calcEvaporation P h T W < 0"
proof -
  have "0 < evapRate P * (1 + 0.045 * (T - 15)) * sqrt h"
  proof (rule mult_pos_pos)
    show "0 < evapRate P * (1 + 0.045 * (T - 15))" by (rule assms(2))
    show "0 < sqrt h" using assms(1) by simp
  qed
  then have "evapRate P * (1 + 0.045 * (T - 15)) * sqrt h * (1 + 0.01 * W) < 0"
    using assms(3) by (rule mult_pos_neg)
  then show ?thesis using assms(1) by (simp add: calcEvaporation_def Let_def min_def)
qed

lemma gale_fields [simp]:
  "spillMode gale = instant" "oilType gale = crude" "landMask gale = None"
  "particleCount gale = 1" "timeStep gale = 3600" "maxTime gale = 172800"
  "windSpeed gale = - 200" "waterTemp gale = 18" "useGridData gale" "windGrid gale = None"
  "currentGrid gale = None" "tempGrid gale = None"
  by (simp_all add: gale_def hourly_def calm_def defaultConfig_def)

theorem weathering_fractions_in_range_witness:
  "step calm calm_start \<noteq> None
   \<and> 0 \<le> evaporated (hd (particles (the (step calm calm_start))))
   \<and> evaporated (hd (particles (the (step calm calm_start)))) \<le> 0.25
   \<and> 0 \<le> dispersed (hd (particles (the (step calm calm_start))))
   \<and> dispersed (hd (particles (the (step calm calm_start)))) \<le> 0.3
   \<and> 0 \<le> emulsionWater (hd (particles (the (step calm calm_start))))
   \<and> emulsionWater (hd (particles (the (step calm calm_start)))) \<le> 0.7
   \<and> steps cold 2 cold_start \<noteq> None
   \<and> evaporated (hd (particles (the (steps cold 2 cold_start)))) \<le> 0.25
   \<and> 0 \<le> dispersed (hd (particles (the (steps cold 2 cold_start))))
   \<and> dispersed (hd (particles (the (steps cold 2 cold_start)))) \<le> 0.3
   \<and> 0 \<le> emulsionWater (hd (particles (the (steps cold 2 cold_start))))
   \<and> emulsionWater (hd (particles (the (steps cold 2 cold_start)))) \<le> 0.7"
proof -
  obtain s1 p1 where a: "step calm calm_start = Some s1" "particles s1 = [p1]"
    using two_steps_single [of calm] unfolding calm_start_def [symmetric] by auto
  have "reachable calm calm_start" unfolding calm_start_def by (rule reach_init)
  then have r: "reachable calm s1"
    by (rule reach_step) (use a in \<open>simp_all add: calm_start_def\<close>)
  have "evaporated p1 \<le> volatileFrac (oilProps calm)
    \<and> 0 \<le> dispersed p1 \<and> dispersed p1 \<le> 0.3
    \<and> 0 \<le> emulsionWater p1 \<and> emulsionWater p1 \<le> 0.7
    \<and> (0 \<le> 1 + 0.045 * (waterTemp calm - 15)
         \<and> (useGridData calm \<and> hasGridData calm \<or> - 1000 / 11 \<le> windSpeed calm)
       \<longrightarrow> 0 \<le> evaporated p1)"
    by (rule weathering_fractions_in_range [OF r]) (simp add: a)
  then have one: "0 \<le> evaporated p1 \<and> evaporated p1 \<le> 0.25
    \<and> 0 \<le> dispersed p1 \<and> dispersed p1 \<le> 0.3
    \<and> 0 \<le> emulsionWater p1 \<and> emulsionWater p1 \<le> 0.7"
    by (simp add: oilProps_def)
  obtain t1 t2 q2 where b: "step cold cold_start = Some t1" "step cold t1 = Some t2"
      "particles t2 = [q2]" "time t1 = 3600"
    using two_steps_single [of cold] unfolding cold_start_def [symmetric] by auto
  have st: "steps cold 2 cold_start = Some t2" by (rule steps_two [OF b(1,2)])
  have r2: "reachable cold t2"
    by (rule reachable_two_steps(2) [OF b(1) [unfolded cold_start_def] b(2)]) (simp_all add: b(4))
  have "evaporated q2 \<le> volatileFrac (oilProps cold)
    \<and> 0 \<le> dispersed q2 \<and> dispersed q2 \<le> 0.3
    \<and> 0 \<le> emulsionWater q2 \<and> emulsionWater q2 \<le> 0.7
    \<and> (0 \<le> 1 + 0.045 * (waterTemp cold - 15)
         \<and> (useGridData cold \<and> hasGridData cold \<or> - 1000 / 11 \<le> windSpeed cold)
       \<longrightarrow> 0 \<le> evaporated q2)"
    by (rule weathering_fractions_in_range [OF r2]) (simp add: b)
  then have two: "evaporated q2 \<le> 0.25
    \<and> 0 \<le> dispersed q2 \<and> dispersed q2 \<le> 0.3
    \<and> 0 \<le> emulsionWater q2 \<and> emulsionWater q2 \<le> 0.7"
    by (simp add: oilProps_def)
  show ?thesis using a one st b(3) two by simp
qed

theorem evaporated_can_be_negative:
  "steps cold 2 cold_start \<noteq> None
   \<and> reachable cold (the (steps cold 2 cold_start))
   \<and> windSpeed cold = 0 \<and> waterTemp cold = - 10
   \<and> evaporated (hd (particles (the (steps cold 2 cold_start)))) = - 0.00525
   \<and> evaporated (hd (particles (the (steps cold 2 cold_start)))) < 0
   \<and> steps gale 2 gale_start \<noteq> None
   \<and> reachable gale (the (steps gale 2 gale_start))
   \<and> windSpeed gale = - 200 \<and> waterTemp gale = 18
   \<and> evaporated (hd (particles (the (steps gale 2 gale_start)))) < 0"
proof -
  obtain s1 s2 p2 where a: "step cold cold_start = Some s1" "step cold s1 = Some s2"
      "particles s2 = [p2]" "time s1 = 3600"
      "evaporated p2 = min (evapFraction (stepGlobals cold 3600)) 0.25"
    using two_steps_single [of cold] unfolding cold_start_def [symmetric] by auto
  have s: "steps cold 2 cold_start = Some s2" by (rule steps_two [OF a(1,2)])
  have r: "reachable cold s2"
    by (rule reachable_two_steps(2) [OF a(1) [unfolded cold_start_def] a(2)]) (simp_all add: a(4))
  have "evapFraction (stepGlobals cold 3600) = - 0.00525"
    by (simp add: stepGlobals_def Let_def calcEvaporation_def hasGridData_def oilProps_def)
  then have one: "evaporated p2 = - 0.00525" unfolding a(5) by simp
  obtain t1 t2 q2 where b: "step gale gale_start = Some t1" "step gale t1 = Some t2"
      "particles t2 = [q2]" "time t1 = 3600"
      "evaporated q2 = min (evapFraction (stepGlobals gale 3600)) 0.25"
    using two_steps_single [of gale] unfolding gale_start_def [symmetric] by auto
  have st: "steps gale 2 gale_start = Some t2" by (rule steps_two [OF b(1,2)])
  have rt: "reachable gale t2"
    by (rule reachable_two_steps(2) [OF b(1) [unfolded gale_start_def] b(2)]) (simp_all add: b(4))
  define x where "x = sin (3600 * 0.0002 :: real)"
  have x0: "0 \<le> x" unfolding x_def by (intro sin_ge_zero) (use pi_ge_two in simp_all)
  have w: "repWs (stepGlobals gale 3600) = - 200 * (1 + x * 0.1)"
    unfolding x_def by (simp add: stepGlobals_def Let_def hasGridData_def)
  have "1 + 0.01 * (- 200 * (1 + x * 0.1)) < 0" using x0 by (simp add: algebra_simps)
  then have "1 + 0.01 * repWs (stepGlobals gale 3600) < 0" unfolding w .
  then have "calcEvaporation (oilProps gale) (3600 / 3600) (waterTemp gale) (repWs (stepGlobals gale 3600)) < 0"
    by (intro calcEvaporation_neg) (simp_all add: oilProps_def)
  then have "evapFraction (stepGlobals gale 3600) < 0"
    unfolding stepGlobals_weathering .
  then have two: "evaporated q2 < 0" unfolding b(5) by simp
  show ?thesis using s r a(3) one st rt b(3) two by simp
qed

subsection \<open>Trajectory spacing\<close>

lemma liveRun_reachable: "liveRun c s \<Longrightarrow> reachable c s"
  by (induction rule: liveRun.induct) (auto intro: reachable.intros)

lemma crossing_iff:
  assumes "0 \<le> T" "0 < dt"
  shows "(jsmod (T + dt) 3600 < dt) = (\<lfloor>T / 3600\<rfloor> < \<lfloor>(T + dt) / 3600\<rfloor>)"
proof -
  have "jsmod (T + dt) 3600 = (T + dt) - 3600 * of_int \<lfloor>(T + dt) / 3600\<rfloor>"
    using assms by (intro jsmod_nonneg) simp
  then have "(jsmod (T + dt) 3600 < dt) = (T < 3600 * of_int \<lfloor>(T + dt) / 3600\<rfloor>)"
    by linarith
  also have "\<dots> = (T / 3600 < of_int \<lfloor>(T + dt) / 3600\<rfloor>)"
    by (simp add: field_simps)
  also have "\<dots> = (\<lfloor>T / 3600\<rfloor> < \<lfloor>(T + dt) / 3600\<rfloor>)"
    by (simp add: floor_less_iff)
  finally show ?thesis .
qed

lemma floor_step_le:
  assumes "0 < dt" "dt \<le> 3600"
  shows "\<lfloor>(T + dt) / 3600\<rfloor> \<le> \<lfloor>T / 3600\<rfloor> + 1"
proof -
  have "(T + dt) / 3600 \<le> T / 3600 + 1" using assms by (simp add: field_simps)
  then have "\<lfloor>(T + dt) / 3600\<rfloor> \<le> \<lfloor>T / 3600 + 1\<rfloor>" by (rule floor_mono)
  then show ?thesis by simp
qed

lemma gap_bound:
  assumes "\<lfloor>L / 3600\<rfloor> = \<lfloor>T / 3600\<rfloor>" "0 < dt"
  shows "T + dt - L < 3600 + dt"
proof -
  have "T / 3600 < of_int \<lfloor>T / 3600\<rfloor> + 1" by linarith
  moreover have "of_int \<lfloor>L / 3600\<rfloor> \<le> L / 3600" by linarith
  ultimately have "T / 3600 - L / 3600 < 1" using assms(1) by simp
  then show ?thesis by (simp add: field_simps)
qed

lemma trajTimes_frame [simp]:
  "trajTimes (updateStats c s) = trajTimes s"
  "trajTimes (s\<lparr>isRunning := b1, isPaused := b2\<rparr>) = trajTimes s"
  "trajTimes (initialize c s) = []"
  by (simp_all add: trajTimes_def)

lemma liveRun_liveInv:
  assumes "liveRun c s" "0 < timeStep c" "timeStep c \<le> 3600"
  shows "liveInv c s"
  using assms(1)
proof (induction rule: liveRun.induct)
  case (live_init s0)
  show ?case by (simp add: liveInv_def)
next
  case (live_step s s')
  have tm: "time s' = time s + timeStep c" using step_fields(1) [OF live_step.hyps(3)] .
  have t0: "0 \<le> time s" and fl: "\<lfloor>(if trajTimes s = [] then 0 else last (trajTimes s)) / 3600\<rfloor> = \<lfloor>time s / 3600\<rfloor>"
    and l0: "trajTimes s \<noteq> [] \<longrightarrow> 0 \<le> last (trajTimes s)"
    and su: "successively (\<lambda>a b. b - a < 3600 + timeStep c) (trajTimes s)"
    using live_step.IH unfolding liveInv_def by blast+
  have t0': "0 \<le> time s'" using t0 assms(2) tm by simp
  show ?case
  proof (cases "jsmod (time s') 3600 < timeStep c")
    case True
    then have tt: "trajTimes s' = trajTimes s @ [time s']"
      using step_trajTimes [OF live_step.hyps(3)] live_step.hyps(4) by simp
    have "successively (\<lambda>a b. b - a < 3600 + timeStep c) (trajTimes s @ [time s'])"
    proof (cases "trajTimes s = []")
      case True
      then show ?thesis by simp
    next
      case False
      then have "\<lfloor>last (trajTimes s) / 3600\<rfloor> = \<lfloor>time s / 3600\<rfloor>" using fl by simp
      then have "time s + timeStep c - last (trajTimes s) < 3600 + timeStep c"
        using assms(2) by (rule gap_bound)
      then show ?thesis using su False by (simp add: successively_append_iff tm)
    qed
    then show ?thesis unfolding liveInv_def tt using t0' by simp
  next
    case False
    then have tt: "trajTimes s' = trajTimes s"
      using step_trajTimes [OF live_step.hyps(3)] by simp
    have "\<not> \<lfloor>time s / 3600\<rfloor> < \<lfloor>(time s + timeStep c) / 3600\<rfloor>"
      using False crossing_iff [OF t0 assms(2)] unfolding tm by simp
    moreover have "\<lfloor>time s / 3600\<rfloor> \<le> \<lfloor>(time s + timeStep c) / 3600\<rfloor>"
      using assms(2) by (intro floor_mono) simp
    ultimately have "\<lfloor>time s' / 3600\<rfloor> = \<lfloor>time s / 3600\<rfloor>" unfolding tm by simp
    then show ?thesis unfolding liveInv_def tt using t0' fl l0 su by simp
  qed
next
  case (live_stats s)
  then show ?case by (auto simp: liveInv_def split: if_splits)
next
  case (live_flags s b1 b2)
  then show ?case by (auto simp: liveInv_def split: if_splits)
qed

lemma successively_nth:
  assumes "successively P xs" "Suc i < length xs"
  shows "P (xs ! i) (xs ! Suc i)"
  using assms
proof (induction P xs arbitrary: i rule: successively.induct)
  case (3 P x y xs)
  then show ?case by (cases i) auto
qed simp_all

lemma live_spacing_upper:
  assumes "liveRun c s" "0 < timeStep c" "timeStep c \<le> 3600" "Suc i < length (trajTimes s)"
  shows "trajTimes s ! Suc i - trajTimes s ! i < 3600 + timeStep c"
  using liveRun_liveInv [OF assms(1,2,3)] successively_nth [OF _ assms(4)]
  unfolding liveInv_def by blast


lemma jsmod_less:
  assumes "0 \<le> x"
  shows "jsmod x 3600 < 3600"
proof -
  have "x / 3600 < of_int \<lfloor>x / 3600\<rfloor> + 1" by linarith
  then have "x < 3600 * of_int \<lfloor>x / 3600\<rfloor> + 3600" by (simp add: field_simps)
  then show ?thesis unfolding jsmod_nonneg [OF assms] by simp
qed

lemma reachable_samples_positive:
  assumes "reachable c s" "0 < timeStep c"
  shows "\<forall>t \<in> set (trajTimes s). 0 < t"
  using assms(1)
proof (induction rule: reachable.induct)
  case (reach_init s0)
  show ?case by simp
next
  case (reach_step s s')
  have "0 \<le> time s" using reachable_shape [OF reach_step.hyps(1)] assms(2) by simp
  then have "0 < time s'" using step_fields(1) [OF reach_step.hyps(3)] assms(2) by simp
  then show ?case
    using reach_step.IH unfolding step_trajTimes [OF reach_step.hyps(3)] by auto
next
  case (reach_stats s)
  then show ?case by simp
next
  case (reach_flags s b1 b2)
  then show ?case by simp
qed

text \<open>
  Claim C9, as amended. In exact real arithmetic (the rounding of the accumulated time is
  not modelled), in every state of a run with a positive step size: the trajectory is
  strictly increasing in time; every sample time \<open>t\<close> is a positive multiple of the step
  size, not after the current time, with \<open>t % 3600 < timeStep\<close>; consecutive samples are at
  least one step and more than \<open>3600 - timeStep\<close> apart. A step appends one sample, at its
  new time, exactly when that time passes the test \<open>time % 3600 < timeStep\<close> and some particle
  is active after the step, and appends nothing otherwise; so with a step size of 3600 or
  more a step appends a sample exactly when some particle is active after it, and
  consecutive samples are at least that step size apart. If the step size is at most 3600
  and some particle was active after every step, consecutive samples are less than
  \<open>3600 + timeStep\<close> apart, so the spacing differs from 3600 by less than one step.
\<close>

theorem trajectory_sample_times:
  assumes "reachable c s" "0 < timeStep c"
  shows "sorted_wrt (<) (trajTimes s)
    \<and> (\<forall>i. Suc i < length (trajTimes s) \<longrightarrow>
          timeStep c \<le> trajTimes s ! Suc i - trajTimes s ! i
          \<and> 3600 - timeStep c < trajTimes s ! Suc i - trajTimes s ! i)
    \<and> (\<forall>t \<in> set (trajTimes s).
          0 < t \<and> t \<le> time s \<and> jsmod t 3600 < timeStep c \<and> (\<exists>n::nat. t = real n * timeStep c))
    \<and> (liveRun c s \<and> timeStep c \<le> 3600 \<longrightarrow>
         (\<forall>i. Suc i < length (trajTimes s) \<longrightarrow>
            trajTimes s ! Suc i - trajTimes s ! i < 3600 + timeStep c))
    \<and> (step c s = Some s' \<longrightarrow>
         trajTimes s' = trajTimes s @
           (if jsmod (time s') 3600 < timeStep c \<and> filter active (particles s') \<noteq> []
            then [time s'] else []))
    \<and> (step c s = Some s' \<and> 3600 \<le> timeStep c \<longrightarrow>
         trajTimes s' = trajTimes s @
           (if filter active (particles s') \<noteq> [] then [time s'] else []))"
proof -
  have inv: "trajectoryInv c s" by (rule reachable_trajectoryInv [OF assms])
  have c1: "sorted_wrt (<) (trajTimes s)" using inv unfolding trajectoryInv_def by blast
  have c3: "\<forall>t \<in> set (trajTimes s).
          0 < t \<and> t \<le> time s \<and> jsmod t 3600 < timeStep c \<and> (\<exists>n::nat. t = real n * timeStep c)"
    using inv reachable_samples_positive [OF assms] unfolding trajectoryInv_def by blast
  have c2: "\<forall>i. Suc i < length (trajTimes s) \<longrightarrow>
          timeStep c \<le> trajTimes s ! Suc i - trajTimes s ! i
          \<and> 3600 - timeStep c < trajTimes s ! Suc i - trajTimes s ! i"
    using trajectory_spacing [OF assms] by blast
  have c4: "liveRun c s \<and> timeStep c \<le> 3600 \<longrightarrow>
         (\<forall>i. Suc i < length (trajTimes s) \<longrightarrow>
            trajTimes s ! Suc i - trajTimes s ! i < 3600 + timeStep c)"
    using live_spacing_upper [OF _ assms(2)] by blast
  have c5: "trajTimes s' = trajTimes s @
           (if jsmod (time s') 3600 < timeStep c \<and> filter active (particles s') \<noteq> []
            then [time s'] else [])" if "step c s = Some s'"
    by (rule step_trajTimes [OF that])
  have c6: "trajTimes s' = trajTimes s @
           (if filter active (particles s') \<noteq> [] then [time s'] else [])"
    if st: "step c s = Some s'" and big: "3600 \<le> timeStep c"
  proof -
    have "0 \<le> time s" using reachable_shape [OF assms(1)] assms(2) by simp
    then have "0 \<le> time s'" using step_fields(1) [OF st] assms(2) by simp
    then have "jsmod (time s') 3600 < timeStep c" using jsmod_less [of "time s'"] big by simp
    then show ?thesis using c5 [OF st] by simp
  qed
  show ?thesis using c1 c2 c3 c4 c5 c6 by blast
qed

lemma jsmod_multiples [simp]:
  "jsmod 3600 3600 = 0" "jsmod 7200 3600 = 0" "jsmod 10800 3600 = 0" "jsmod 21600 3600 = 0"
  by (simp_all add: jsmod_def)

lemma late_fields [simp]:
  "spillMode late = continuous" "spillDuration late = 3" "particleCount late = 1"
  "timeStep late = 3600" "maxTime late = 172800"
  by (simp_all add: late_def hourly_def calm_def defaultConfig_def)

text \<open>The first step of the late release: nothing is released yet, no particle is active.\<close>

lemma late_step:
  "\<exists>s' w. step late late_start = Some s' \<and> particles s' = [w] \<and> \<not> active w \<and> time s' = 3600"
proof -
  define w where "w = (OilParticle (Some (spillLat late)) (Some (spillLng late)) (massPerParticle late))
                    \<lparr>p_viscosity := viscosity (oilProps late), active := False\<rparr>"
  have s0: "particles late_start = [w]" "time late_start = 0" "particlesReleased late_start = 0"
    unfolding late_start_def w_def by (simp_all add: start_states initialize_released)
  have w: "\<not> active w" unfolding w_def by simp
  have fl: "\<lfloor>(1 / 3 :: real)\<rfloor> = 0" by (simp add: floor_eq_iff)
  have tgt: "targetReleased late late_start = Some 0"
    by (simp add: targetReleased_def Let_def s0 fl)
  have rel: "releasePhase late late_start = Some late_start"
    by (simp add: releasePhase_def tgt s0)
  have sp: "stepParticle late e r w k = Some (w, k)" for e r k
    using w by (simp add: stepParticle_def)
  define s' where "s' = recordTrajectory late
      (late_start\<lparr>particles := [w], rpos := rpos late_start, time := time late_start + timeStep late\<rparr>)"
  have "step late late_start = Some s'"
    by (simp add: step_def rel s0 sp s'_def)
  moreover have "particles s' = [w]" "time s' = 3600" unfolding s'_def using s0 by simp_all
  ultimately show ?thesis using w by blast
qed

theorem trajectory_sample_times_witness:
  "steps hourly 2 hourly_start \<noteq> None
   \<and> liveRun hourly (the (steps hourly 2 hourly_start))
   \<and> trajTimes (the (steps hourly 2 hourly_start)) = [3600, 7200]
   \<and> sorted_wrt (<) (trajTimes (the (steps hourly 2 hourly_start)))
   \<and> jsmod (trajTimes (the (steps hourly 2 hourly_start)) ! 0) 3600 < timeStep hourly
   \<and> 3600 - timeStep hourly <
       trajTimes (the (steps hourly 2 hourly_start)) ! Suc 0 - trajTimes (the (steps hourly 2 hourly_start)) ! 0
   \<and> trajTimes (the (steps hourly 2 hourly_start)) ! Suc 0 - trajTimes (the (steps hourly 2 hourly_start)) ! 0
       < 3600 + timeStep hourly
   \<and> step late late_start \<noteq> None
   \<and> jsmod (time (the (step late late_start))) 3600 < timeStep late
   \<and> filter active (particles (the (step late late_start))) = []
   \<and> trajTimes (the (step late late_start)) = []
   \<and> step coarse coarse_start \<noteq> None
   \<and> filter active (particles (the (step coarse coarse_start))) \<noteq> []
   \<and> trajTimes (the (step coarse coarse_start)) = [10800]"
proof -
  obtain s1 s2 p1 p2 where a: "step hourly hourly_start = Some s1" "step hourly s1 = Some s2"
      "time s1 = 3600" "trajTimes s2 = [3600, 7200]"
      "particles s1 = [p1]" "active p1" "particles s2 = [p2]" "active p2"
    using two_steps_single [of hourly] unfolding hourly_start_def [symmetric] by auto
  have s: "steps hourly 2 hourly_start = Some s2" by (rule steps_two [OF a(1,2)])
  have "liveRun hourly hourly_start" unfolding hourly_start_def by (rule live_init)
  then have "liveRun hourly s1"
    by (rule live_step) (use a in \<open>simp_all add: hourly_start_def\<close>)
  then have l: "liveRun hourly s2"
    by (rule live_step) (use a in simp_all)
  have r: "reachable hourly s2" by (rule liveRun_reachable [OF l])
  have h: "0 < timeStep hourly" by simp
  note t1 = trajectory_sample_times [OF r h, of s2]
  have one: "sorted_wrt (<) (trajTimes s2)
    \<and> jsmod (trajTimes s2 ! 0) 3600 < timeStep hourly
    \<and> 3600 - timeStep hourly < trajTimes s2 ! Suc 0 - trajTimes s2 ! 0
    \<and> trajTimes s2 ! Suc 0 - trajTimes s2 ! 0 < 3600 + timeStep hourly"
    using t1 l a(4) by simp
  obtain u w where b: "step late late_start = Some u" "particles u = [w]" "\<not> active w"
      "time u = 3600"
    using late_step by blast
  have rl: "reachable late late_start" unfolding late_start_def by (rule reach_init)
  have hl: "0 < timeStep late" by simp
  have "step late late_start = Some u \<longrightarrow>
         trajTimes u = trajTimes late_start @
           (if jsmod (time u) 3600 < timeStep late \<and> filter active (particles u) \<noteq> []
            then [time u] else [])"
    using trajectory_sample_times [OF rl hl, of u] by blast
  then have two: "trajTimes u = []" using b by (simp add: late_start_def)
  obtain v1 v2 q1 where d: "step coarse coarse_start = Some v1" "step coarse v1 = Some v2"
      "time v1 = 10800" "particles v1 = [q1]" "active q1"
    using two_steps_single [of coarse] unfolding coarse_start_def [symmetric] by auto
  have rc: "reachable coarse coarse_start" unfolding coarse_start_def by (rule reach_init)
  have hc: "0 < timeStep coarse" by simp
  have "step coarse coarse_start = Some v1 \<and> 3600 \<le> timeStep coarse \<longrightarrow>
         trajTimes v1 = trajTimes coarse_start @
           (if filter active (particles v1) \<noteq> [] then [time v1] else [])"
    using trajectory_sample_times [OF rc hc, of v1] by blast
  then have three: "trajTimes v1 = [10800]" using d by (simp add: coarse_start_def)
  show ?thesis using s l a(4) one b two d three by simp
qed

theorem trajectory_three_hour_spacing:
  "steps coarse 2 coarse_start \<noteq> None
   \<and> reachable coarse (the (steps coarse 2 coarse_start))
   \<and> trajTimes (the (steps coarse 2 coarse_start)) = [10800, 21600]
   \<and> \<not> hourlySpaced 3600 (trajTimes (the (steps coarse 2 coarse_start)))"
proof -
  obtain s1 s2 where a: "step coarse coarse_start = Some s1" "step coarse s1 = Some s2"
      "time s1 = 10800" "trajTimes s2 = [10800, 21600]"
    using two_steps_single [of coarse] unfolding coarse_start_def [symmetric] by auto
  have s: "steps coarse 2 coarse_start = Some s2" by (rule steps_two [OF a(1,2)])
  have r: "reachable coarse s2"
    by (rule reachable_two_steps(2) [OF a(1) [unfolded coarse_start_def] a(2)]) (simp_all add: a(3))
  have "\<not> hourlySpaced 3600 [10800, 21600]"
    unfolding hourlySpaced_def by (simp add: exI [of _ 0])
  then show ?thesis using s r a(4) by simp
qed

subsection \<open>Calm examples with a land mask\<close>

lemma step_after_release:
  assumes "releasePhase c s = Some s1" "oilType c = crude" "particles s1 = [p]" "active p"
    "rnd s1 = ex_rnd" "even (rpos s1)" "2 \<le> rpos s1"
  defines "e \<equiv> stepGlobals c (time s)"
  defines "q \<equiv> spreadParticle c (weatherParticle c e p)"
  shows "step c s = Some (recordTrajectory c
      (s1\<lparr>particles := [displace c q (fst (displacement c e q 0 0)) (snd (displacement c e q 0 0))],
          rpos := rpos s1 + 4, time := time s1 + timeStep c\<rparr>))"
proof -
  have g1: "gaussRandom ex_rnd (rpos s1) = Some (0, rpos s1 + 2)"
    by (rule gaussRandom_ex_rnd [OF assms(6,7)])
  have g2: "gaussRandom ex_rnd (rpos s1 + 2) = Some (0, rpos s1 + 2 + 2)"
    by (rule gaussRandom_ex_rnd) (use assms(6,7) in simp_all)
  have e4: "rpos s1 + 2 + 2 = rpos s1 + 4" by simp
  have sp: "stepParticle c e ex_rnd p (rpos s1) =
      Some (displace c q (fst (displacement c e q 0 0)) (snd (displacement c e q 0 0)), rpos s1 + 4)"
    unfolding q_def e4 [symmetric]
    by (rule stepParticle_drifts [OF assms(4) crude_remains [OF assms(2)] g1 g2])
  show ?thesis
    by (simp add: step_def assms(1,3,5) e_def [symmetric] sp)
qed

lemma displacement_calm:
  assumes "windSpeed c = 0" "currentSpeed c = 0" "\<not> hasGridData c" "0 \<le> timeStep c"
    "lat p = Some la" "cos (la * DEG_TO_RAD) \<noteq> 0"
  shows "displacement c (stepGlobals c t) p 0 0 = (Some 0, Some 0)"
  using assms
  by (simp add: displacement_def stepGlobals_def Let_def nsqrt_def nmul_def nadd_def EARTH_RADIUS_def)

lemma displace_still:
  assumes "lat q = Some la" "lng q = Some lo"
  shows "beached (displace c q (Some 0) (Some 0)) = (beached q \<or> onLand c (Some la) (Some lo))"
    "active (displace c q (Some 0) (Some 0)) = (active q \<and> \<not> onLand c (Some la) (Some lo))"
    "lat (displace c q (Some 0) (Some 0)) = Some la"
    "lng (displace c q (Some 0) (Some 0)) = Some lo"
  using assms by (simp_all add: displace_flags displace_position nadd_def)

lemma land_grid_covers:
  assumes "landMask c = Some land_grid" "38 \<le> la" "la < 39" "118 \<le> lo" "lo < 120"
  shows "onLand c (Some la) (Some lo)"
proof -
  have fl: "\<lfloor>la - 38\<rfloor> = 0" "\<lfloor>(lo - 118) / 2\<rfloor> = 0" using assms by (simp_all add: floor_eq_iff)
  have c: "contains land_grid la lo"
    using assms by (simp add: land_grid_def grid_eval_defs)
  have "sample land_grid ''lsm'' la lo None = Some 1"
    using assms fl
    by (simp add: land_grid_def grid_eval_defs min_def max_def algebra_simps)
  then show ?thesis using c assms(1) by (simp add: onLand_def)
qed

lemma shore_fields [simp]:
  "spillMode shore = instant" "oilType shore = crude" "landMask shore = Some land_grid"
  "particleCount shore = 1" "timeStep shore = 600" "maxTime shore = 172800"
  "windSpeed shore = 0" "currentSpeed shore = 0" "spillLat shore = 38.5" "spillLng shore = 119"
  "windGrid shore = None" "currentGrid shore = None" "tempGrid shore = None" "useGridData shore"
  by (simp_all add: shore_def calm_def defaultConfig_def)

lemma leak_shore_fields [simp]:
  "spillMode leak_shore = continuous" "oilType leak_shore = crude"
  "landMask leak_shore = Some land_grid" "particleCount leak_shore = 1"
  "timeStep leak_shore = 600" "maxTime leak_shore = 600" "spillDuration leak_shore = 1 / 6"
  "windSpeed leak_shore = 0" "currentSpeed leak_shore = 0"
  "spillLat leak_shore = 38.5" "spillLng leak_shore = 119"
  "windGrid leak_shore = None" "currentGrid leak_shore = None" "tempGrid leak_shore = None"
  by (simp_all add: leak_shore_def leak_def calm_def defaultConfig_def)

lemma sqrt_quarter: "sqrt (1 / 4) = 1 / 2"
  by (simp add: real_sqrt_divide)

lemma ex_rnd_first [simp]: "ex_rnd 0 = 0" "ex_rnd (Suc 0) = 1 / 4"
  by (simp_all add: ex_rnd_def)

lemma diskPoint_ex:
  assumes "spillLat c = 38.5" "spillLng c = 119"
  shows "diskPoint c rad 0 (1 / 4) = (Some (38.5 + rad / 2), Some 119)"
proof -
  have "cos (spillLat c * DEG_TO_RAD) \<noteq> 0"
    unfolding assms(1) by (rule cos_deg_nonzero) simp_all
  then show ?thesis using assms(2) by (simp add: diskPoint_def Let_def sqrt_quarter assms(1))
qed

text \<open>The instant release next to the shore: the particle starts at (38.501, 119) and is
  grounded by its first step.\<close>

lemma shore_step:
  "\<exists>p'. step shore shore_start = Some (recordTrajectory shore
        (shore_start\<lparr>particles := [p'], rpos := 6, time := 600\<rparr>))
    \<and> beached p' \<and> \<not> active p' \<and> lat p' = Some 38.501 \<and> lng p' = Some 119
    \<and> particles shore_start = [initialParticle shore ex_rnd 0 0]
    \<and> lat (initialParticle shore ex_rnd 0 0) = Some 38.501
    \<and> lng (initialParticle shore ex_rnd 0 0) = Some 119"
proof -
  define p0 where "p0 = initialParticle shore ex_rnd 0 0"
  define e where "e = stepGlobals shore (time shore_start)"
  define q where "q = spreadParticle shore (weatherParticle shore e p0)"
  have s0: "particles shore_start = [p0]" "rnd shore_start = ex_rnd" "rpos shore_start = 2"
    "time shore_start = 0"
    unfolding shore_start_def p0_def by (simp_all add: start_states)
  have p0: "active p0" "\<not> beached p0" "lat p0 = Some 38.501" "lng p0 = Some 119"
    unfolding p0_def
    by (simp_all add: initialParticle_def OilParticle_def diskPoint_ex)
  have q: "lat q = Some 38.501" "lng q = Some 119" "active q" "\<not> beached q"
    unfolding q_def using p0 by simp_all
  have c: "cos (38.501 * DEG_TO_RAD) \<noteq> 0" by (rule cos_deg_nonzero) simp_all
  have d: "displacement shore e q 0 0 = (Some 0, Some 0)"
    unfolding e_def by (rule displacement_calm [OF _ _ _ _ q(1) c]) (simp_all add: hasGridData_def)
  have land: "onLand shore (Some 38.501) (Some 119)"
    by (rule land_grid_covers) simp_all
  define p' where "p' = displace shore q (Some 0) (Some 0)"
  have st: "step shore shore_start = Some (recordTrajectory shore
      (shore_start\<lparr>particles := [p'], rpos := rpos shore_start + 4, time := time shore_start + timeStep shore\<rparr>))"
    using step_after_release [OF releasePhase_instant _ s0(1) p0(1) s0(2), of shore] s0(3)
    by (simp add: d e_def [symmetric] q_def [symmetric] p'_def)
  have "beached p'" "\<not> active p'" "lat p' = Some 38.501" "lng p' = Some 119"
    unfolding p'_def using displace_still [OF q(1,2), of shore] land by simp_all
  then show ?thesis using st s0 p0 unfolding p0_def by auto
qed

text \<open>The continuous release next to the shore: the particle waits at (38.5, 119), is
  released at (38.5005, 119) by the first step and grounded by the same step.\<close>

lemma leak_shore_step:
  "\<exists>s' p'. step leak_shore leak_shore_start = Some s' \<and> particles s' = [p']
    \<and> beached p' \<and> \<not> active p' \<and> lat p' = Some 38.5005 \<and> lng p' = Some 119
    \<and> length (particles leak_shore_start) = 1
    \<and> \<not> beached (particles leak_shore_start ! 0)
    \<and> lat (particles leak_shore_start ! 0) = Some 38.5
    \<and> lng (particles leak_shore_start ! 0) = Some 119"
proof -
  define w where "w = (OilParticle (Some 38.5) (Some 119) (massPerParticle leak_shore))
                    \<lparr>p_viscosity := viscosity (oilProps leak_shore), active := False\<rparr>"
  have s0: "particles leak_shore_start = [w]" "rnd leak_shore_start = ex_rnd"
    "rpos leak_shore_start = 0" "time leak_shore_start = 0"
    "particlesReleased leak_shore_start = 0"
    unfolding leak_shore_start_def w_def by (simp_all add: start_states initialize_released)
  have w: "\<not> beached w" "lat w = Some 38.5" "lng w = Some 119"
    unfolding w_def by (simp_all add: OilParticle_def)
  define s1 where "s1 = releaseOne leak_shore leak_shore_start"
  define p1 where "p1 = w\<lparr>lat := Some 38.5005, lng := Some 119, active := True, age := 0\<rparr>"
  have tgt: "targetReleased leak_shore leak_shore_start = Some 1"
    by (simp add: targetReleased_def Let_def s0)
  have rel: "releasePhase leak_shore leak_shore_start = Some s1"
    by (simp add: releasePhase_def tgt s0 s1_def)
  have s1: "particles s1 = [p1]" "rnd s1 = ex_rnd" "rpos s1 = 2" "time s1 = 0"
    unfolding s1_def p1_def by (simp_all add: releaseOne_def Let_def s0 diskPoint_ex)
  define e where "e = stepGlobals leak_shore (time leak_shore_start)"
  define q where "q = spreadParticle leak_shore (weatherParticle leak_shore e p1)"
  have q: "lat q = Some 38.5005" "lng q = Some 119" "active q"
    unfolding q_def p1_def by simp_all
  have c: "cos (38.5005 * DEG_TO_RAD) \<noteq> 0" by (rule cos_deg_nonzero) simp_all
  have d: "displacement leak_shore e q 0 0 = (Some 0, Some 0)"
    unfolding e_def by (rule displacement_calm [OF _ _ _ _ q(1) c]) (simp_all add: hasGridData_def)
  have land: "onLand leak_shore (Some 38.5005) (Some 119)"
    by (rule land_grid_covers) simp_all
  define p' where "p' = displace leak_shore q (Some 0) (Some 0)"
  have a1: "active p1" unfolding p1_def by simp
  have st: "step leak_shore leak_shore_start = Some (recordTrajectory leak_shore
      (s1\<lparr>particles := [p'], rpos := rpos s1 + 4, time := time s1 + timeStep leak_shore\<rparr>))"
    using step_after_release [OF rel _ s1(1) a1 s1(2)] s1(3)
    by (simp add: d e_def [symmetric] q_def [symmetric] p'_def)
  have "beached p'" "\<not> active p'" "lat p' = Some 38.5005" "lng p' = Some 119"
    unfolding p'_def using displace_still [OF q(1,2), of leak_shore] land by simp_all
  then show ?thesis using st s0 w by simp
qed

subsection \<open>Grounding: examples\<close>

theorem grounding_reverts_position_witness:
  "step shore shore_start \<noteq> None
   \<and> \<not> beached (particles shore_start ! 0)
   \<and> beached (particles (the (step shore shore_start)) ! 0)
   \<and> \<not> active (particles (the (step shore shore_start)) ! 0)
   \<and> lat (particles (the (step shore shore_start)) ! 0) = lat (particles shore_start ! 0)
   \<and> lng (particles (the (step shore shore_start)) ! 0) = lng (particles shore_start ! 0)"
proof -
  obtain s' p' where a: "step shore shore_start = Some s'" "particles s' = [p']" "beached p'"
      "particles shore_start = [initialParticle shore ex_rnd 0 0]"
    using shore_step by auto
  have rel: "particlesReleased shore_start = 1"
    by (simp add: shore_start_def initialize_released)
  have "\<not> active (particles s' ! 0)
    \<and> (\<exists>s1. releasePhase shore shore_start = Some s1
          \<and> lat (particles s' ! 0) = lat (particles s1 ! 0)
          \<and> lng (particles s' ! 0) = lng (particles s1 ! 0)
          \<and> (\<exists>x y. onLand shore (nadd (lat (particles s1 ! 0)) x) (nadd (lng (particles s1 ! 0)) y)))
    \<and> (0 < particlesReleased shore_start \<longrightarrow>
          lat (particles s' ! 0) = lat (particles shore_start ! 0)
          \<and> lng (particles s' ! 0) = lng (particles shore_start ! 0))"
    by (rule grounding_reverts_position [OF a(1)]) (simp_all add: a)
  then show ?thesis using a rel by simp
qed

theorem grounding_after_release_moves:
  "step leak_shore leak_shore_start \<noteq> None
   \<and> \<not> beached (particles leak_shore_start ! 0)
   \<and> beached (particles (the (step leak_shore leak_shore_start)) ! 0)
   \<and> lat (particles leak_shore_start ! 0) = Some 38.5
   \<and> lat (particles (the (step leak_shore leak_shore_start)) ! 0) = Some 38.5005
   \<and> lat (particles (the (step leak_shore leak_shore_start)) ! 0) \<noteq> lat (particles leak_shore_start ! 0)"
  using leak_shore_step by auto

subsection \<open>Statistics with no active particle: example\<close>

theorem updateStats_no_active_witness:
  "step shore shore_start \<noteq> None
   \<and> filter active (particles (the (step shore shore_start))) = []
   \<and> s_beached (stats (the (step shore shore_start))) = 0
   \<and> updateStats shore (the (step shore shore_start)) =
       (the (step shore shore_start))\<lparr>stats := (stats (the (step shore shore_start)))\<lparr>s_beached := 1\<rparr>\<rparr>"
proof -
  obtain s' p' where a: "step shore shore_start = Some s'" "particles s' = [p']" "beached p'"
      "\<not> active p'"
    using shore_step by auto
  have "reachable shore shore_start" unfolding shore_start_def by (rule reach_init)
  then have r: "reachable shore s'"
    by (rule reach_step) (use a in \<open>simp_all add: shore_start_def\<close>)
  have st: "stats s' = initStats shore"
    using step_fields(2) [OF a(1)] by (simp add: shore_start_def)
  have "updateStats shore s' = s'\<lparr>stats := (stats s')\<lparr>s_beached := length (filter beached (particles s'))\<rparr>\<rparr>"
    by (rule updateStats_no_active [OF r]) (simp add: a)
  then show ?thesis using a st by (simp add: initStats_def)
qed

subsection \<open>Land mask as the only grid\<close>








end
